theory Spec2Isabelle
  imports Complex_Main
begin

section \<open>The paving pattern generator \<open>pavPattern\<close>\<close>

text \<open>
  A shallow embedding of \<^verbatim>\<open>src/Random_Paving_Patterns.py\<close>.

  Numbers. The script computes with Python floats. Every height it produces is a sum of
  the catalog heights 0.5, 1.0, ..., 3.0, a multiple of one half, which binary floating
  point represents and adds exactly; the thresholds 0.001 and 1e-6 are only compared with
  such multiples. The model is therefore over \<open>rat\<close>, with the thresholds as the fractions
  they denote.

  The host application. \<^verbatim>\<open>rhinoscriptsyntax\<close> and \<^verbatim>\<open>random\<close> are collaborators, not
  code of the script. The model makes them explicit in the state: \<open>rnd\<close> is the raw random
  source (the n-th raw draw) and \<open>rpos\<close> the number of draws consumed so far, \<open>srf_ok\<close>
  says whether the n-th call of \<^verbatim>\<open>rs.AddSrfPt\<close> creates a surface, \<open>doc_layers\<close> are
  the layers of the Rhino document with their colours, and \<open>calls\<close> is the record of
  the \<^verbatim>\<open>rs.AddSrfPt\<close> calls made so far, each with the layer that \<^verbatim>\<open>rs.ObjectLayer\<close>
  gave its surface afterwards.
\<close>

subsection \<open>Errors and Python primitives\<close>

datatype error = ValueError | IndexError | KeyError

text \<open>\<^verbatim>\<open>int(x)\<close> on a float truncates towards zero.\<close>

definition py_int :: "rat \<Rightarrow> int" where
  "py_int x = (if 0 \<le> x then \<lfloor>x\<rfloor> else \<lceil>x\<rceil>)"

text \<open>\<^verbatim>\<open>range(n)\<close>: empty when \<open>n \<le> 0\<close>.\<close>

definition py_range :: "int \<Rightarrow> nat list" where
  "py_range n = [0..<nat n]"

text \<open>\<^verbatim>\<open>max(xs)\<close> raises ValueError on an empty list.\<close>

fun py_max :: "rat list \<Rightarrow> error + rat" where
  "py_max [] = Inl ValueError"
| "py_max (x # xs) = Inr (fold max xs x)"

text \<open>\<^verbatim>\<open>xs[i]\<close> for an index \<open>i \<ge> 0\<close>: IndexError out of range.\<close>

definition py_get :: "'a list \<Rightarrow> nat \<Rightarrow> error + 'a" where
  "py_get xs i = (if i < length xs then Inr (xs ! i) else Inl IndexError)"

text \<open>\<^verbatim>\<open>d[k]\<close> on a dict, kept as the list of its items in insertion order.\<close>

definition py_lookup :: "('k \<times> 'v) list \<Rightarrow> 'k \<Rightarrow> error + 'v" where
  "py_lookup d k = (case map_of d k of None \<Rightarrow> Inl KeyError | Some v \<Rightarrow> Inr v)"

text \<open>\<^verbatim>\<open>str(n)\<close> of an integer: decimal digits, a minus sign when negative.\<close>

definition digit_char :: "nat \<Rightarrow> char" where
  "digit_char d = char_of (48 + d)"

fun str_nat :: "nat \<Rightarrow> string" where
  "str_nat n = (if n < 10 then [digit_char n] else str_nat (n div 10) @ [digit_char (n mod 10)])"

declare str_nat.simps [simp del]

definition str_int :: "int \<Rightarrow> string" where
  "str_int k = (if k < 0 then CHR ''-'' # str_nat (nat (- k)) else str_nat (nat k))"

subsection \<open>The state: the script's variables and the host application\<close>

text \<open>
  \<open>psite\<close> names the place of the script that made the call: the stacker (line 63), the
  catalog-fit branch of the gap loop (line 93), its fallback branch (line 115), or the
  guard after the loop (line 129). The rectangle of a panel in column \<open>i\<close> has the corners
  \<open>(i - 0.5, y1), (i - 0.5, y0), (i + 0.5, y0), (i + 0.5, y1)\<close>.
\<close>

datatype site = Stacked | Fit | Fallback | Residual

record panel =
  pcol :: nat
  py0 :: rat
  py1 :: rat
  psrf :: "nat option"
  player :: "string option"
  psite :: site

record state =
  srfs :: "nat option list"
  y_bases :: "rat list"
  existing_layers :: "string list"
  rnd :: "nat \<Rightarrow> nat"
  rpos :: nat
  srf_ok :: "nat \<Rightarrow> bool"
  doc_layers :: "(string \<times> int \<times> int \<times> int) list"
  calls :: "panel list"

text \<open>\<^verbatim>\<open>random.randint(a, b)\<close>: an integer of \<open>a..b\<close>; ValueError when the range is empty.\<close>

definition randint :: "int \<Rightarrow> int \<Rightarrow> state \<Rightarrow> error + (int \<times> state)" where
  "randint a b s =
     (if b < a then Inl ValueError
      else Inr (a + int (rnd s (rpos s)) mod (b - a + 1), s\<lparr>rpos := rpos s + 1\<rparr>))"

text \<open>\<^verbatim>\<open>random.choice(xs)\<close>: an element of \<open>xs\<close>; IndexError when \<open>xs\<close> is empty.\<close>

definition random_choice :: "'a list \<Rightarrow> state \<Rightarrow> error + ('a \<times> state)" where
  "random_choice xs s =
     (if xs = [] then Inl IndexError
      else Inr (xs ! (rnd s (rpos s) mod length xs), s\<lparr>rpos := rpos s + 1\<rparr>))"

text \<open>\<^verbatim>\<open>rs.IsLayer\<close>, and \<^verbatim>\<open>rs.AddLayer\<close> followed by \<^verbatim>\<open>rs.LayerColor\<close>.\<close>

definition IsLayer :: "string \<Rightarrow> state \<Rightarrow> bool" where
  "IsLayer name s = (name \<in> fst ` set (doc_layers s))"

definition AddLayer :: "string \<Rightarrow> int \<times> int \<times> int \<Rightarrow> state \<Rightarrow> state" where
  "AddLayer name colour s = s\<lparr>doc_layers := doc_layers s @ [(name, colour)]\<rparr>"

text \<open>
  \<^verbatim>\<open>rs.AddSrfPt\<close> on the rectangle of column \<open>i\<close> between \<open>y0\<close> and \<open>y1\<close>: the call is
  recorded, and the handle of the new surface (the number of the call) comes back, or
  nothing when the host creates no surface. \<^verbatim>\<open>rs.ObjectLayer\<close> puts a surface on a layer.
\<close>

definition AddSrfPt :: "site \<Rightarrow> nat \<Rightarrow> rat \<Rightarrow> rat \<Rightarrow> state \<Rightarrow> nat option \<times> state" where
  "AddSrfPt st i y0 y1 s =
     (let srf = (if srf_ok s (length (calls s)) then Some (length (calls s)) else None)
      in (srf, s\<lparr>calls := calls s @
            [\<lparr>pcol = i, py0 = y0, py1 = y1, psrf = srf, player = None, psite = st\<rparr>]\<rparr>))"

definition ObjectLayer :: "nat \<Rightarrow> string \<Rightarrow> state \<Rightarrow> state" where
  "ObjectLayer srf layer_name s =
     (if srf < length (calls s)
      then s\<lparr>calls := (calls s)[srf := (calls s ! srf)\<lparr>player := Some layer_name\<rparr>]\<rparr>
      else s)"

text \<open>A \<^verbatim>\<open>for\<close> loop over a list, stopping at the first exception.\<close>

primrec for_each :: "('a \<Rightarrow> 's \<Rightarrow> error + 's) \<Rightarrow> 'a list \<Rightarrow> 's \<Rightarrow> error + 's" where
  "for_each f [] s = Inr s"
| "for_each f (x # xs) s = (case f x s of Inl e \<Rightarrow> Inl e | Inr s' \<Rightarrow> for_each f xs s')"

subsection \<open>The size catalog (lines 30 to 36)\<close>

text \<open>
  The catalog has no parameters: the script fixes \<^verbatim>\<open>bucket_size = 0.5\<close> and
  \<^verbatim>\<open>max_r = 3.0\<close> and writes the base size 0.5 as a literal in lines 32 and 35. At
  these numbers every intermediate value of the two lines (2.5, 5.0, and the heights
  0.5, 1.0, ..., 3.0) is a multiple of one half, so the float arithmetic is exact and
  \<open>rat\<close> computes the same values. The dict of line 35 is kept as the list of its
  items in insertion order; its keys are distinct.
\<close>

definition bucket_size :: rat where
  "bucket_size = 1 / 2"

definition max_r :: rat where
  "max_r = 3"

definition num_buckets :: int where
  "num_buckets = py_int ((max_r - 1 / 2) / bucket_size) + 1"

definition bucket_heights :: "(int \<times> rat) list" where
  "bucket_heights = map (\<lambda>i. (int i + 1, 1 / 2 + of_nat i * bucket_size)) (py_range num_buckets)"

definition layer_of :: "int \<Rightarrow> string" where
  "layer_of bucket_index = ''Height_Group_'' @ str_int bucket_index"

subsection \<open>Step 1: the stacker (lines 39 to 68)\<close>

text \<open>Lines 46 to 54: the layer of the bucket is created if the document lacks it, and registered.\<close>

definition register_layer :: "string \<Rightarrow> state \<Rightarrow> error + state" where
  "register_layer layer_name s =
     (if \<not> IsLayer layer_name s then
        (case randint 0 255 s of
           Inl e \<Rightarrow> Inl e
         | Inr (r_color, s2) \<Rightarrow>
        (case randint 0 255 s2 of
           Inl e \<Rightarrow> Inl e
         | Inr (g_color, s3) \<Rightarrow>
        (case randint 0 255 s3 of
           Inl e \<Rightarrow> Inl e
         | Inr (b_color, s4) \<Rightarrow>
           Inr ((AddLayer layer_name (r_color, g_color, b_color) s4)
                  \<lparr>existing_layers := existing_layers s4 @ [layer_name]\<rparr>))))
      else if layer_name \<notin> set (existing_layers s) then
        Inr (s\<lparr>existing_layers := existing_layers s @ [layer_name]\<rparr>)
      else Inr s)"

text \<open>The body of the inner loop, lines 41 to 68, for column \<open>i\<close>.\<close>

definition stack_cell :: "nat \<Rightarrow> state \<Rightarrow> error + state" where
  "stack_cell i s =
     (case randint 1 num_buckets s of
        Inl e \<Rightarrow> Inl e
      | Inr (bucket_index, s1) \<Rightarrow>
     (case py_lookup bucket_heights bucket_index of
        Inl e \<Rightarrow> Inl e
      | Inr r \<Rightarrow>
     (let layer_name = layer_of bucket_index in
     (case register_layer layer_name s1 of
        Inl e \<Rightarrow> Inl e
      | Inr s5 \<Rightarrow>
     (case py_get (y_bases s5) i of
        Inl e \<Rightarrow> Inl e
      | Inr y0 \<Rightarrow>
     (let y1 = y0 + r;
          (srf, s6) = AddSrfPt Stacked i y0 y1 s5;
          s7 = (case srf of Some g \<Rightarrow> ObjectLayer g layer_name s6 | None \<Rightarrow> s6)
      in Inr (s7\<lparr>y_bases := (y_bases s7)[i := y1], srfs := srfs s7 @ [srf]\<rparr>)))))))"

definition stack_row :: "int \<Rightarrow> state \<Rightarrow> error + state" where
  "stack_row xNum s = for_each stack_cell (py_range xNum) s"

definition stack_rows :: "int \<Rightarrow> int \<Rightarrow> state \<Rightarrow> error + state" where
  "stack_rows xNum yNum s = for_each (\<lambda>n. stack_row xNum) (py_range yNum) s"

subsection \<open>Step 2: the gap closer (lines 71 to 132)\<close>

text \<open>The catalog-fit branch of the gap loop, lines 82 to 105; it returns the new \<^verbatim>\<open>current_y\<close>.\<close>

definition fit_step ::
  "nat \<Rightarrow> rat \<Rightarrow> rat \<Rightarrow> (int \<times> rat) list \<Rightarrow> state \<Rightarrow> error + (rat \<times> state)" where
  "fit_step i gap current_y valid_fits s =
     (case random_choice valid_fits s of
        Inl e \<Rightarrow> Inl e
      | Inr ((bucket_index, h), s1) \<Rightarrow>
     (let is_last_tile = (\<bar>gap - h\<bar> < 1 / 1000000);
          y0 = current_y;
          y1 = y0 + h;
          (srf, s2) = AddSrfPt Fit i y0 y1 s1
      in (case srf of
            None \<Rightarrow> Inr (y1, s2)
          | Some g \<Rightarrow>
         (case (if is_last_tile then random_choice (existing_layers s2) s2
                else Inr (layer_of bucket_index, s2)) of
            Inl e \<Rightarrow> Inl e
          | Inr (layer_name, s3) \<Rightarrow>
              Inr (y1, (ObjectLayer g layer_name s3)\<lparr>srfs := srfs s3 @ [srf]\<rparr>)))))"

text \<open>The fallback branch, lines 107 to 119: \<^verbatim>\<open>current_y\<close> and \<^verbatim>\<open>gap\<close> are not assigned.\<close>

definition fallback_step :: "nat \<Rightarrow> rat \<Rightarrow> rat \<Rightarrow> state \<Rightarrow> error + state" where
  "fallback_step i gap current_y s =
     (let h = gap;
          y0 = current_y;
          y1 = y0 + h
      in (case random_choice (existing_layers s) s of
            Inl e \<Rightarrow> Inl e
          | Inr (layer_name, s1) \<Rightarrow>
         (let (srf, s2) = AddSrfPt Fallback i y0 y1 s1
          in (case srf of
                None \<Rightarrow> Inr s2
              | Some g \<Rightarrow> Inr ((ObjectLayer g layer_name s2)\<lparr>srfs := srfs s2 @ [srf]\<rparr>)))))"

text \<open>The list comprehension of line 79.\<close>

definition valid_fits_of :: "rat \<Rightarrow> (int \<times> rat) list" where
  "valid_fits_of gap = filter (\<lambda>(index, h). h \<le> gap + 1 / 1000000) bucket_heights"

text \<open>
  The \<^verbatim>\<open>while\<close> loop of lines 77 to 119, with \<^verbatim>\<open>gap\<close> recomputed from \<^verbatim>\<open>current_y\<close> at
  the loop head as lines 75 and 105 do. It returns \<^verbatim>\<open>current_y\<close> and \<^verbatim>\<open>gap\<close> as they are
  when the loop is left.
\<close>

function while_gap :: "nat \<Rightarrow> rat \<Rightarrow> rat \<Rightarrow> state \<Rightarrow> error + (rat \<times> rat \<times> state)" where
  "while_gap i max_height current_y s =
     (let gap = max_height - current_y in
      if gap > 1 / 1000 then
        (if valid_fits_of gap \<noteq> [] then
           (case fit_step i gap current_y (valid_fits_of gap) s of
              Inl e \<Rightarrow> Inl e
            | Inr (y1, s') \<Rightarrow> while_gap i max_height y1 s')
         else
           (case fallback_step i gap current_y s of
              Inl e \<Rightarrow> Inl e
            | Inr s' \<Rightarrow> Inr (current_y, gap, s')))
      else Inr (current_y, gap, s))"
  by pat_completeness auto
termination
proof (relation "measure (\<lambda>(i, max_height, current_y, s). nat \<lceil>2 * (max_height - current_y)\<rceil>)")
  show "wf (measure (\<lambda>(i, max_height, current_y, s). nat \<lceil>2 * (max_height - current_y)\<rceil>))"
    by simp
next
  fix i :: nat and max_height current_y gap :: rat and s :: state and x y1 s'
  assume gap: "gap = max_height - current_y" and pos: "1 / 1000 < gap"
    and step: "fit_step i gap current_y (valid_fits_of gap) s = Inr x" and x: "(y1, s') = x"
  have cat: "bucket_heights = [(1, 1 / 2), (2, 1), (3, 3 / 2), (4, 2), (5, 5 / 2), (6, 3)]"
    by (simp add: bucket_heights_def num_buckets_def max_r_def
        bucket_size_def py_int_def py_range_def upt_rec)
  from step x obtain k h s1
    where ch: "random_choice (valid_fits_of gap) s = Inr ((k, h), s1)" and y1: "y1 = current_y + h"
    by (auto simp: fit_step_def Let_def split: sum.splits prod.splits option.splits if_splits)
  from ch have ne: "valid_fits_of gap \<noteq> []"
    and nth: "valid_fits_of gap ! (rnd s (rpos s) mod length (valid_fits_of gap)) = (k, h)"
    by (auto simp: random_choice_def split: if_splits)
  from ne have "rnd s (rpos s) mod length (valid_fits_of gap) < length (valid_fits_of gap)"
    by simp
  then have kh: "(k, h) \<in> set (valid_fits_of gap)"
    using nth nth_mem by metis
  from kh have "(k, h) \<in> set bucket_heights"
    by (simp add: valid_fits_of_def)
  then have "1 / 2 \<le> h"
    unfolding cat by auto
  with y1 have "2 * (max_height - y1) \<le> 2 * (max_height - current_y) - 1"
    by simp
  then have "\<lceil>2 * (max_height - y1)\<rceil> \<le> \<lceil>2 * (max_height - current_y)\<rceil> - 1"
    by (metis ceiling_mono ceiling_diff_one)
  moreover from gap pos have "0 < \<lceil>2 * (max_height - current_y)\<rceil>"
    by simp
  ultimately show "((i, max_height, y1, s'), (i, max_height, current_y, s))
      \<in> measure (\<lambda>(i, max_height, current_y, s). nat \<lceil>2 * (max_height - current_y)\<rceil>)"
    by simp
qed

declare while_gap.simps [simp del]

text \<open>The guard after the loop, lines 122 to 132.\<close>

definition residual_guard :: "nat \<Rightarrow> rat \<Rightarrow> rat \<Rightarrow> state \<Rightarrow> error + state" where
  "residual_guard i gap current_y s =
     (if gap \<ge> 1 / 1000 then
        (let y0 = current_y;
             y1 = y0 + gap
         in (case random_choice (existing_layers s) s of
               Inl e \<Rightarrow> Inl e
             | Inr (filler_layer, s1) \<Rightarrow>
            (let (srf, s2) = AddSrfPt Residual i y0 y1 s1
             in (case srf of
                   None \<Rightarrow> Inr s2
                 | Some g \<Rightarrow> Inr ((ObjectLayer g filler_layer s2)\<lparr>srfs := srfs s2 @ [srf]\<rparr>)))))
      else Inr s)"

text \<open>The body of the \<^verbatim>\<open>for\<close> loop of line 73, for column \<open>i\<close>.\<close>

definition fill_column :: "rat \<Rightarrow> nat \<Rightarrow> state \<Rightarrow> error + state" where
  "fill_column max_height i s =
     (case py_get (y_bases s) i of
        Inl e \<Rightarrow> Inl e
      | Inr current_y \<Rightarrow>
     (case while_gap i max_height current_y s of
        Inl e \<Rightarrow> Inl e
      | Inr (current_y', gap, s1) \<Rightarrow> residual_guard i gap current_y' s1))"

definition close_gaps :: "int \<Rightarrow> state \<Rightarrow> error + state" where
  "close_gaps xNum s =
     (case py_max (y_bases s) of
        Inl e \<Rightarrow> Inl e
      | Inr max_height \<Rightarrow> for_each (fill_column max_height) (py_range xNum) s)"

subsection \<open>The whole run\<close>

text \<open>
  The state at line 29, for a random source, a host that creates surfaces as \<open>ok\<close> says,
  and a document that holds the layers \<open>layers\<close> and no surface of this run yet.
\<close>

definition init_state ::
  "int \<Rightarrow> (nat \<Rightarrow> nat) \<Rightarrow> (nat \<Rightarrow> bool) \<Rightarrow> (string \<times> int \<times> int \<times> int) list \<Rightarrow> state" where
  "init_state xNum r ok layers =
     \<lparr>srfs = [], y_bases = map (\<lambda>_. 0) (py_range xNum), existing_layers = [],
      rnd = r, rpos = 0, srf_ok = ok, doc_layers = layers, calls = []\<rparr>"

text \<open>\<^verbatim>\<open>pavPattern(xNum, yNum)\<close>: the list it returns is \<open>srfs\<close> of the final state.\<close>

definition pavPattern ::
  "int \<Rightarrow> int \<Rightarrow> (nat \<Rightarrow> nat) \<Rightarrow> (nat \<Rightarrow> bool) \<Rightarrow> (string \<times> int \<times> int \<times> int) list
    \<Rightarrow> error + state" where
  "pavPattern xNum yNum r ok layers =
     (case stack_rows xNum yNum (init_state xNum r ok layers) of
        Inl e \<Rightarrow> Inl e
      | Inr s \<Rightarrow> close_gaps xNum s)"

subsection \<open>Reading the record of calls\<close>

text \<open>
  The top of column \<open>i\<close>: the upper edge of the last panel recorded for it, 0 when there is
  none. A list of panels is contiguous from \<open>y\<close> when the first starts at \<open>y\<close> and each
  next one starts where the one before ends.
\<close>

definition col_top :: "nat \<Rightarrow> panel list \<Rightarrow> rat" where
  "col_top i ps = fold (\<lambda>p t. if pcol p = i then py1 p else t) ps 0"

fun contiguous_from :: "rat \<Rightarrow> panel list \<Rightarrow> bool" where
  "contiguous_from y [] = True"
| "contiguous_from y (p # ps) = (py0 p = y \<and> contiguous_from (py1 p) ps)"

text \<open>
  The (row, column) pairs in the order in which the loops of lines 39 and 40 visit them:
  all columns of row 0, then all columns of row 1, and so on.
\<close>

definition visits :: "int \<Rightarrow> int \<Rightarrow> (nat \<times> nat) list" where
  "visits xNum yNum = List.product (py_range yNum) (py_range xNum)"

text \<open>
  What a panel of the gap closer looks like, for a top \<open>max_height\<close> and a registry: a
  catalog panel of some bucket \<open>k\<close>, on a layer of the registry when it ends at the top
  and on the layer of \<open>k\<close> otherwise; or a filler lower than half a unit on a layer of
  the registry.
\<close>

definition closer_panel :: "rat \<Rightarrow> string list \<Rightarrow> panel \<Rightarrow> bool" where
  "closer_panel max_height registry p \<longleftrightarrow>
     psite p = Fit \<and> (\<exists>k. (k, py1 p - py0 p) \<in> set bucket_heights \<and>
        (\<forall>l. player p = Some l \<longrightarrow>
           (if \<bar>max_height - py1 p\<bar> < 1 / 1000000 then l \<in> set registry else l = layer_of k)))
     \<or> (psite p = Fallback \<or> psite p = Residual) \<and> py1 p - py0 p < 1 / 2 \<and>
        (\<forall>l. player p = Some l \<longrightarrow> l \<in> set registry)"

text \<open>
  What the stacker keeps true of a state with \<open>x\<close> columns: there is one running height per
  column and it is the top of the column in the record; every running height is a multiple
  of one half; while the registry is empty nothing has been stacked; the list \<^verbatim>\<open>srfs\<close>
  holds the result of every call, in order; and every call is the stacker's own.
\<close>

definition stack_inv :: "nat \<Rightarrow> state \<Rightarrow> bool" where
  "stack_inv x s \<longleftrightarrow>
     length (y_bases s) = x \<and>
     (\<forall>i<x. col_top i (calls s) = y_bases s ! i) \<and>
     (\<forall>y\<in>set (y_bases s). \<exists>m::nat. y = of_nat m / 2) \<and>
     (existing_layers s = [] \<longrightarrow> (\<forall>y\<in>set (y_bases s). y = 0)) \<and>
     srfs s = map psrf (calls s) \<and>
     (\<forall>p\<in>set (calls s). psite p = Stacked \<and> pcol p < x)"

section \<open>Properties\<close>

subsection \<open>Basic facts\<close>

lemma bucket_heights_eq:
  "bucket_heights = [(1, 1 / 2), (2, 1), (3, 3 / 2), (4, 2), (5, 5 / 2), (6, 3)]"
  by (simp add: bucket_heights_def num_buckets_def max_r_def
      bucket_size_def py_int_def py_range_def upt_rec)

lemma bucket_heights_ge_half: "(k, h) \<in> set bucket_heights \<Longrightarrow> 1 / 2 \<le> h"
  by (auto simp: bucket_heights_eq)

lemma random_choice_mem: "random_choice xs s = Inr (x, s') \<Longrightarrow> x \<in> set xs"
proof -
  assume ch: "random_choice xs s = Inr (x, s')"
  then have ne: "xs \<noteq> []" and nth: "xs ! (rnd s (rpos s) mod length xs) = x"
    by (auto simp: random_choice_def split: if_splits)
  from ne have "rnd s (rpos s) mod length xs < length xs"
    by simp
  then show ?thesis
    using nth nth_mem by metis
qed

lemma fit_step_y1:
  "fit_step i gap current_y valid_fits s = Inr (y1, s') \<Longrightarrow>
   \<exists>k h. (k, h) \<in> set valid_fits \<and> y1 = current_y + h"
  by (auto simp: fit_step_def Let_def split: sum.splits prod.splits option.splits if_splits
      dest: random_choice_mem)

lemma fit_step_advance:
  "fit_step i gap current_y (valid_fits_of gap) s = Inr (y1, s') \<Longrightarrow> current_y + 1 / 2 \<le> y1"
proof -
  assume "fit_step i gap current_y (valid_fits_of gap) s = Inr (y1, s')"
  then obtain k h where kh: "(k, h) \<in> set (valid_fits_of gap)" and y1: "y1 = current_y + h"
    using fit_step_y1 by blast
  from kh have "(k, h) \<in> set bucket_heights"
    by (simp add: valid_fits_of_def)
  then have "1 / 2 \<le> h"
    by (rule bucket_heights_ge_half)
  with y1 show ?thesis by simp
qed

lemma random_choice_Inr:
  "random_choice xs s = Inr (x, s') \<Longrightarrow> x \<in> set xs \<and> s' = s\<lparr>rpos := Suc (rpos s)\<rparr>"
  using random_choice_mem [of xs s x s'] by (auto simp: random_choice_def split: if_splits)

lemma randint_Inr:
  "randint a b s = Inr (k, s') \<Longrightarrow> a \<le> k \<and> k \<le> b \<and> s' = s\<lparr>rpos := Suc (rpos s)\<rparr>"
proof -
  assume r: "randint a b s = Inr (k, s')"
  then have ab: "a \<le> b" and k: "k = a + int (rnd s (rpos s)) mod (b - a + 1)"
    and s': "s' = s\<lparr>rpos := Suc (rpos s)\<rparr>"
    by (auto simp: randint_def split: if_splits)
  from ab have "0 < b - a + 1" by simp
  then have "0 \<le> int (rnd s (rpos s)) mod (b - a + 1)" 
    and "int (rnd s (rpos s)) mod (b - a + 1) < b - a + 1"
    by (rule pos_mod_sign, rule pos_mod_bound)
  with k s' show ?thesis by simp
qed

lemma randint_total: "a \<le> b \<Longrightarrow> \<exists>k. randint a b s = Inr (k, s\<lparr>rpos := Suc (rpos s)\<rparr>)"
  by (simp add: randint_def)

lemma num_buckets_eq: "num_buckets = 6"
  by (simp add: num_buckets_def max_r_def bucket_size_def py_int_def)

lemma py_lookup_bucket:
  "1 \<le> k \<Longrightarrow> k \<le> 6 \<Longrightarrow> py_lookup bucket_heights k = Inr (of_int k / 2)"
proof -
  assume "1 \<le> k" "k \<le> 6"
  then have "k = 1 \<or> k = 2 \<or> k = 3 \<or> k = 4 \<or> k = 5 \<or> k = 6" by arith
  then show ?thesis
    by (auto simp: py_lookup_def bucket_heights_eq)
qed

lemma register_layer_Inr:
  assumes "register_layer l s = Inr s'"
  shows "existing_layers s' = (if IsLayer l s \<and> l \<in> set (existing_layers s)
            then existing_layers s else existing_layers s @ [l])"
    and "fst ` set (doc_layers s') = insert l (fst ` set (doc_layers s))"
    and "calls s' = calls s" and "y_bases s' = y_bases s" and "srfs s' = srfs s"
    and "srf_ok s' = srf_ok s" and "rnd s' = rnd s"
  using assms
  by (auto simp: register_layer_def AddLayer_def IsLayer_def
      split: if_splits sum.splits prod.splits dest!: randint_Inr)

lemma register_layer_total: "\<exists>s'. register_layer l s = Inr s'"
  by (simp add: register_layer_def randint_def)

lemma stack_cell_Inr:
  assumes "stack_cell i s = Inr s'" 
  shows "\<exists>k. randint 1 num_buckets s = Inr (k, s\<lparr>rpos := Suc (rpos s)\<rparr>) \<and>
     1 \<le> k \<and> k \<le> 6 \<and> i < length (y_bases s) \<and>
     y_bases s' = (y_bases s)[i := y_bases s ! i + of_int k / 2] \<and>
     calls s' = calls s @ [\<lparr>pcol = i, py0 = y_bases s ! i, py1 = y_bases s ! i + of_int k / 2,
        psrf = (if srf_ok s (length (calls s)) then Some (length (calls s)) else None),
        player = (if srf_ok s (length (calls s)) then Some (layer_of k) else None),
        psite = Stacked\<rparr>] \<and>
     srfs s' = srfs s @ [if srf_ok s (length (calls s)) then Some (length (calls s)) else None] \<and>
     srf_ok s' = srf_ok s \<and> rnd s' = rnd s \<and>
     existing_layers s' = (if IsLayer (layer_of k) s \<and> layer_of k \<in> set (existing_layers s)
         then existing_layers s else existing_layers s @ [layer_of k]) \<and>
     fst ` set (doc_layers s') = insert (layer_of k) (fst ` set (doc_layers s))"
proof -
  from assms obtain k s1 where r: "randint 1 num_buckets s = Inr (k, s1)"
    by (auto simp: stack_cell_def split: sum.splits)
  then have k: "1 \<le> k" "k \<le> 6" and s1: "s1 = s\<lparr>rpos := Suc (rpos s)\<rparr>"
    using randint_Inr [OF r] by (simp_all add: num_buckets_eq)
  have look: "py_lookup bucket_heights k = Inr (of_int k / 2)"
    using k by (rule py_lookup_bucket)
  from assms r look obtain s5 where reg: "register_layer (layer_of k) s1 = Inr s5"
    by (auto simp: stack_cell_def Let_def split: sum.splits)
  note fr = register_layer_Inr [OF reg]
  from assms r look reg have i: "i < length (y_bases s)"
    by (auto simp: stack_cell_def Let_def py_get_def fr s1 split: sum.splits if_splits)
  from assms r look reg i have s': "s' = (let y0 = y_bases s5 ! i; y1 = y0 + of_int k / 2;
          (srf, s6) = AddSrfPt Stacked i y0 y1 s5;
          s7 = (case srf of Some g \<Rightarrow> ObjectLayer g (layer_of k) s6 | None \<Rightarrow> s6)
      in s7\<lparr>y_bases := (y_bases s7)[i := y1], srfs := srfs s7 @ [srf]\<rparr>)"
    by (auto simp: stack_cell_def Let_def py_get_def fr s1 split: prod.splits)
  have "IsLayer (layer_of k) s1 = IsLayer (layer_of k) s"
    by (simp add: IsLayer_def s1)
  then show ?thesis
    using r k i fr
    by (intro exI [of _ k]) (simp add: s' s1 Let_def AddSrfPt_def ObjectLayer_def)
qed

lemma stack_cell_total:
  assumes "i < length (y_bases s)"
  shows "\<exists>s'. stack_cell i s = Inr s'"
proof -
  obtain k where r: "randint 1 num_buckets s = Inr (k, s\<lparr>rpos := Suc (rpos s)\<rparr>)"
    using randint_total [of 1 num_buckets s] by (auto simp: num_buckets_eq)
  then have k: "1 \<le> k" "k \<le> 6" 
    using randint_Inr [OF r] by (simp_all add: num_buckets_eq)
  have look: "py_lookup bucket_heights k = Inr (of_int k / 2)"
    using k by (rule py_lookup_bucket)
  obtain s5 where reg: "register_layer (layer_of k) (s\<lparr>rpos := Suc (rpos s)\<rparr>) = Inr s5"
    using register_layer_total by blast
  note fr = register_layer_Inr [OF reg]
  show ?thesis
    using assms by (simp add: stack_cell_def r look reg Let_def py_get_def fr split: prod.splits)
qed

lemma fit_step_Inr:
  assumes "fit_step i gap current_y valid_fits s = Inr (y1, s')"
  shows "\<exists>k h tag. (k, h) \<in> set valid_fits \<and> y1 = current_y + h \<and>
     calls s' = calls s @ [\<lparr>pcol = i, py0 = current_y, py1 = current_y + h,
        psrf = (if srf_ok s (length (calls s)) then Some (length (calls s)) else None),
        player = tag, psite = Fit\<rparr>] \<and>
     (tag = None \<longleftrightarrow> \<not> srf_ok s (length (calls s))) \<and>
     (\<forall>l. tag = Some l \<longrightarrow>
        (if \<bar>gap - h\<bar> < 1 / 1000000 then l \<in> set (existing_layers s) else l = layer_of k)) \<and>
     srfs s' = srfs s @ (if srf_ok s (length (calls s)) then [Some (length (calls s))] else []) \<and>
     y_bases s' = y_bases s \<and> existing_layers s' = existing_layers s \<and>
     srf_ok s' = srf_ok s \<and> rnd s' = rnd s \<and> doc_layers s' = doc_layers s"
proof -
  from assms obtain k h s1 where ch: "random_choice valid_fits s = Inr ((k, h), s1)"
    by (auto simp: fit_step_def split: sum.splits)
  then have kh: "(k, h) \<in> set valid_fits" and s1: "s1 = s\<lparr>rpos := Suc (rpos s)\<rparr>"
    using random_choice_Inr [OF ch] by simp_all
  show ?thesis
  proof (cases "srf_ok s (length (calls s))")
    case False
    with assms ch kh show ?thesis
      by (intro exI [of _ k] exI [of _ h] exI [of _ None])
         (auto simp: fit_step_def s1 AddSrfPt_def Let_def)
  next
    case ok: True
    show ?thesis
    proof (cases "\<bar>gap - h\<bar> < 1 / 1000000")
      case False
      with assms ch kh ok show ?thesis
        by (intro exI [of _ k] exI [of _ h] exI [of _ "Some (layer_of k)"])
           (auto simp: fit_step_def s1 AddSrfPt_def ObjectLayer_def Let_def)
    next
      case True
      with assms ch ok obtain l s3 where
        c2: "random_choice (existing_layers s) (s\<lparr>rpos := Suc (rpos s), calls := calls s @
            [\<lparr>pcol = i, py0 = current_y, py1 = current_y + h,
              psrf = Some (length (calls s)), player = None, psite = Fit\<rparr>]\<rparr>) = Inr (l, s3)"
        by (auto simp: fit_step_def s1 AddSrfPt_def Let_def split: sum.splits)
      note r2 = random_choice_Inr [OF c2]
      from assms ch kh ok True c2 r2 show ?thesis
        by (intro exI [of _ k] exI [of _ h] exI [of _ "Some l"])
           (auto simp: fit_step_def s1 AddSrfPt_def ObjectLayer_def Let_def)
    qed
  qed
qed

lemma fallback_step_Inr:
  assumes "fallback_step i gap current_y s = Inr s'"
  shows "\<exists>tag. calls s' = calls s @ [\<lparr>pcol = i, py0 = current_y, py1 = current_y + gap,
        psrf = (if srf_ok s (length (calls s)) then Some (length (calls s)) else None),
        player = tag, psite = Fallback\<rparr>] \<and>
     (tag = None \<longleftrightarrow> \<not> srf_ok s (length (calls s))) \<and>
     (\<forall>l. tag = Some l \<longrightarrow> l \<in> set (existing_layers s)) \<and>
     srfs s' = srfs s @ (if srf_ok s (length (calls s)) then [Some (length (calls s))] else []) \<and>
     y_bases s' = y_bases s \<and> existing_layers s' = existing_layers s \<and>
     srf_ok s' = srf_ok s \<and> rnd s' = rnd s \<and> doc_layers s' = doc_layers s"
proof -
  from assms obtain l s1 where ch: "random_choice (existing_layers s) s = Inr (l, s1)"
    by (auto simp: fallback_step_def Let_def split: sum.splits)
  note r = random_choice_Inr [OF ch]
  show ?thesis
  proof (cases "srf_ok s (length (calls s))")
    case False
    with assms ch r show ?thesis
      by (intro exI [of _ None]) (auto simp: fallback_step_def AddSrfPt_def Let_def)
  next
    case True
    with assms ch r show ?thesis
      by (intro exI [of _ "Some l"])
         (auto simp: fallback_step_def AddSrfPt_def ObjectLayer_def Let_def)
  qed
qed

lemma residual_guard_Inr:
  assumes "residual_guard i gap current_y s = Inr s'" and "1 / 1000 \<le> gap"
  shows "\<exists>tag. calls s' = calls s @ [\<lparr>pcol = i, py0 = current_y, py1 = current_y + gap,
        psrf = (if srf_ok s (length (calls s)) then Some (length (calls s)) else None),
        player = tag, psite = Residual\<rparr>] \<and>
     (tag = None \<longleftrightarrow> \<not> srf_ok s (length (calls s))) \<and>
     (\<forall>l. tag = Some l \<longrightarrow> l \<in> set (existing_layers s)) \<and>
     srfs s' = srfs s @ (if srf_ok s (length (calls s)) then [Some (length (calls s))] else []) \<and>
     y_bases s' = y_bases s \<and> existing_layers s' = existing_layers s \<and>
     srf_ok s' = srf_ok s \<and> rnd s' = rnd s \<and> doc_layers s' = doc_layers s"
proof -
  from assms obtain l s1 where ch: "random_choice (existing_layers s) s = Inr (l, s1)"
    by (auto simp: residual_guard_def Let_def split: sum.splits)
  note r = random_choice_Inr [OF ch]
  show ?thesis
  proof (cases "srf_ok s (length (calls s))")
    case False
    with assms ch r show ?thesis
      by (intro exI [of _ None]) (auto simp: residual_guard_def AddSrfPt_def Let_def)
  next
    case True
    with assms ch r show ?thesis
      by (intro exI [of _ "Some l"])
         (auto simp: residual_guard_def AddSrfPt_def ObjectLayer_def Let_def)
  qed
qed

lemma residual_guard_skip: "gap < 1 / 1000 \<Longrightarrow> residual_guard i gap current_y s = Inr s"
  by (simp add: residual_guard_def)

lemma valid_fits_of_mem:
  "(k, h) \<in> set (valid_fits_of gap) \<longleftrightarrow> (k, h) \<in> set bucket_heights \<and> h \<le> gap + 1 / 1000000"
  by (auto simp: valid_fits_of_def)

lemma valid_fits_of_empty: "valid_fits_of gap = [] \<longleftrightarrow> gap + 1 / 1000000 < 1 / 2"
  by (auto simp: valid_fits_of_def bucket_heights_eq)

lemma while_gap_Inr:
  assumes "while_gap i max_height current_y s = Inr (cy', gap', s')"
  shows "gap' = max_height - cy' \<and> gap' < 1 / 2 \<and> current_y \<le> cy' \<and>
     (\<exists>new. calls s' = calls s @ new \<and>
        int (length new) \<le> max 0 \<lceil>2 * (max_height - current_y)\<rceil> \<and>
        srfs s' = srfs s @ filter (\<lambda>x. x \<noteq> None) (map psrf new) \<and>
        (\<forall>p \<in> set new. pcol p = i \<and> current_y \<le> py0 p \<and>
           (psite p = Fit \<and> (\<exists>k. (k, py1 p - py0 p) \<in> set bucket_heights \<and>
                (\<forall>l. player p = Some l \<longrightarrow>
                   (if \<bar>max_height - py1 p\<bar> < 1 / 1000000
                    then l \<in> set (existing_layers s) else l = layer_of k)))
            \<or> psite p = Fallback \<and> py1 p - py0 p < 1 / 2 \<and> py1 p = max_height \<and>
                (\<forall>l. player p = Some l \<longrightarrow> l \<in> set (existing_layers s))))) \<and>
     y_bases s' = y_bases s \<and> existing_layers s' = existing_layers s \<and>
     srf_ok s' = srf_ok s \<and> rnd s' = rnd s \<and> doc_layers s' = doc_layers s"
  using assms
proof (induction i max_height current_y s rule: while_gap.induct)
  case (1 i max_height current_y s)
  let ?gap = "max_height - current_y"
  show ?case
  proof (cases "1 / 1000 < ?gap")
    case False
    with "1.prems" have "cy' = current_y" "gap' = ?gap" "s' = s"
      by (simp_all add: while_gap.simps Let_def)
    with False show ?thesis by simp
  next
    case gap: True
    show ?thesis
    proof (cases "valid_fits_of ?gap \<noteq> []")
      case False
      with gap "1.prems" obtain s1 where fb: "fallback_step i ?gap current_y s = Inr s1"
        and res: "cy' = current_y" "gap' = ?gap" "s' = s1"
        by (auto simp: while_gap.simps Let_def split: sum.splits)
      from False have small: "?gap < 1 / 2"
        by (simp add: valid_fits_of_empty)
      from gap have "1 \<le> \<lceil>2 * ?gap\<rceil>" by simp
      with fallback_step_Inr [OF fb] res small show ?thesis
        by auto
    next
      case fits: True
      with gap "1.prems" obtain y1 s1 where f: "fit_step i ?gap current_y (valid_fits_of ?gap) s = Inr (y1, s1)"
        and w: "while_gap i max_height y1 s1 = Inr (cy', gap', s')"
        by (auto simp: while_gap.simps Let_def split: sum.splits)
      note IH = "1.IH" [OF refl gap fits f refl w]
      from fit_step_Inr [OF f] obtain k h tag where kh: "(k, h) \<in> set (valid_fits_of ?gap)"
        and y1: "y1 = current_y + h"
        and c1: "calls s1 = calls s @ [\<lparr>pcol = i, py0 = current_y, py1 = current_y + h,
          psrf = (if srf_ok s (length (calls s)) then Some (length (calls s)) else None),
          player = tag, psite = Fit\<rparr>]"
        and tag: "(tag = None) = (\<not> srf_ok s (length (calls s)))"
          "\<forall>l. tag = Some l \<longrightarrow>
            (if \<bar>?gap - h\<bar> < 1 / 1000000 then l \<in> set (existing_layers s) else l = layer_of k)"
        and s1: "srfs s1 = srfs s @ (if srf_ok s (length (calls s)) then [Some (length (calls s))] else [])"
        and fr: "y_bases s1 = y_bases s" "existing_layers s1 = existing_layers s"
          "srf_ok s1 = srf_ok s" "rnd s1 = rnd s" "doc_layers s1 = doc_layers s"
        by blast
      from kh have bh: "(k, h) \<in> set bucket_heights"
        by (simp add: valid_fits_of_mem)
      then have h: "1 / 2 \<le> h" by (rule bucket_heights_ge_half)
      from IH obtain new where n: "calls s' = calls s1 @ new"
        and len: "int (length new) \<le> max 0 \<lceil>2 * (max_height - y1)\<rceil>"
        and sr: "srfs s' = srfs s1 @ filter (\<lambda>x. x \<noteq> None) (map psrf new)"
        and all: "\<forall>p \<in> set new. pcol p = i \<and> y1 \<le> py0 p \<and>
           (psite p = Fit \<and> (\<exists>k. (k, py1 p - py0 p) \<in> set bucket_heights \<and>
                (\<forall>l. player p = Some l \<longrightarrow>
                   (if \<bar>max_height - py1 p\<bar> < 1 / 1000000
                    then l \<in> set (existing_layers s1) else l = layer_of k)))
            \<or> psite p = Fallback \<and> py1 p - py0 p < 1 / 2 \<and> py1 p = max_height \<and>
                (\<forall>l. player p = Some l \<longrightarrow> l \<in> set (existing_layers s1)))"
        by blast
      let ?p = "\<lparr>pcol = i, py0 = current_y, py1 = current_y + h,
          psrf = (if srf_ok s (length (calls s)) then Some (length (calls s)) else None),
          player = tag, psite = Fit\<rparr>"
      have c: "calls s' = calls s @ (?p # new)"
        using n c1 by simp
      have "\<lceil>2 * (max_height - y1)\<rceil> \<le> \<lceil>2 * ?gap - 1\<rceil>"
        using h y1 by (intro ceiling_mono) simp
      then have a: "\<lceil>2 * (max_height - y1)\<rceil> \<le> \<lceil>2 * ?gap\<rceil> - 1"
        by (simp only: ceiling_diff_one)
      from gap have b: "1 \<le> \<lceil>2 * ?gap\<rceil>" by simp
      from len a b have "int (length new) + 1 \<le> max 0 \<lceil>2 * ?gap\<rceil>"
        by linarith
      then have l: "int (length (?p # new)) \<le> max 0 \<lceil>2 * ?gap\<rceil>"
        by simp
      have sr': "srfs s' = srfs s @ filter (\<lambda>x. x \<noteq> None) (map psrf (?p # new))"
        using sr s1 by simp
      have gh: "?gap - h = max_height - (current_y + h)" by simp
      have all': "\<forall>p \<in> set (?p # new). pcol p = i \<and> current_y \<le> py0 p \<and>
           (psite p = Fit \<and> (\<exists>k. (k, py1 p - py0 p) \<in> set bucket_heights \<and>
                (\<forall>l. player p = Some l \<longrightarrow>
                   (if \<bar>max_height - py1 p\<bar> < 1 / 1000000
                    then l \<in> set (existing_layers s) else l = layer_of k)))
            \<or> psite p = Fallback \<and> py1 p - py0 p < 1 / 2 \<and> py1 p = max_height \<and>
                (\<forall>l. player p = Some l \<longrightarrow> l \<in> set (existing_layers s)))"
      proof
        fix p assume "p \<in> set (?p # new)"
        then consider "p = ?p" | "p \<in> set new" by auto
        then show "pcol p = i \<and> current_y \<le> py0 p \<and>
           (psite p = Fit \<and> (\<exists>k. (k, py1 p - py0 p) \<in> set bucket_heights \<and>
                (\<forall>l. player p = Some l \<longrightarrow>
                   (if \<bar>max_height - py1 p\<bar> < 1 / 1000000
                    then l \<in> set (existing_layers s) else l = layer_of k)))
            \<or> psite p = Fallback \<and> py1 p - py0 p < 1 / 2 \<and> py1 p = max_height \<and>
                (\<forall>l. player p = Some l \<longrightarrow> l \<in> set (existing_layers s)))"
        proof cases
          case 1
          with bh tag(2) show ?thesis
            unfolding gh by (auto intro!: exI [of _ k])
        next
          case 2
          with all have "pcol p = i \<and> y1 \<le> py0 p \<and>
           (psite p = Fit \<and> (\<exists>k. (k, py1 p - py0 p) \<in> set bucket_heights \<and>
                (\<forall>l. player p = Some l \<longrightarrow>
                   (if \<bar>max_height - py1 p\<bar> < 1 / 1000000
                    then l \<in> set (existing_layers s1) else l = layer_of k)))
            \<or> psite p = Fallback \<and> py1 p - py0 p < 1 / 2 \<and> py1 p = max_height \<and>
                (\<forall>l. player p = Some l \<longrightarrow> l \<in> set (existing_layers s1)))"
            by blast
          moreover have "current_y \<le> y1" using h y1 by simp
          ultimately show ?thesis
            unfolding fr by auto
        qed
      qed
      from IH have rest: "gap' = max_height - cy'" "gap' < 1 / 2" "y1 \<le> cy'"
        "y_bases s' = y_bases s1" "existing_layers s' = existing_layers s1"
        "srf_ok s' = srf_ok s1" "rnd s' = rnd s1" "doc_layers s' = doc_layers s1"
        by simp_all
      have le: "current_y \<le> cy'" using rest(3) h y1 by simp
      have ex: "\<exists>new. calls s' = calls s @ new \<and>
        int (length new) \<le> max 0 \<lceil>2 * (max_height - current_y)\<rceil> \<and>
        srfs s' = srfs s @ filter (\<lambda>x. x \<noteq> None) (map psrf new) \<and>
        (\<forall>p \<in> set new. pcol p = i \<and> current_y \<le> py0 p \<and>
           (psite p = Fit \<and> (\<exists>k. (k, py1 p - py0 p) \<in> set bucket_heights \<and>
                (\<forall>l. player p = Some l \<longrightarrow>
                   (if \<bar>max_height - py1 p\<bar> < 1 / 1000000
                    then l \<in> set (existing_layers s) else l = layer_of k)))
            \<or> psite p = Fallback \<and> py1 p - py0 p < 1 / 2 \<and> py1 p = max_height \<and>
                (\<forall>l. player p = Some l \<longrightarrow> l \<in> set (existing_layers s))))"
        by (rule exI [of _ "?p # new"]) (intro conjI c l sr' all')
      from rest(1,2) le ex rest(4-8) show ?thesis
        unfolding fr by (intro conjI)
    qed
  qed
qed

lemma fill_column_Inr:
  assumes "fill_column max_height i s = Inr s'"
  shows "i < length (y_bases s) \<and>
     (\<exists>new. calls s' = calls s @ new \<and>
        int (length new) \<le> max 0 \<lceil>2 * (max_height - y_bases s ! i)\<rceil> + 1 \<and>
        srfs s' = srfs s @ filter (\<lambda>x. x \<noteq> None) (map psrf new) \<and>
        (\<forall>p \<in> set new. pcol p = i \<and> closer_panel max_height (existing_layers s) p)) \<and>
     y_bases s' = y_bases s \<and> existing_layers s' = existing_layers s \<and>
     srf_ok s' = srf_ok s \<and> rnd s' = rnd s \<and> doc_layers s' = doc_layers s"
proof -
  from assms have i: "i < length (y_bases s)"
    by (auto simp: fill_column_def py_get_def split: if_splits)
  with assms obtain cy gap s1 where w: "while_gap i max_height (y_bases s ! i) s = Inr (cy, gap, s1)"
    and g: "residual_guard i gap cy s1 = Inr s'"
    by (auto simp: fill_column_def py_get_def split: sum.splits)
  from while_gap_Inr [OF w] obtain new where gap: "gap = max_height - cy" "gap < 1 / 2"
    and n: "calls s1 = calls s @ new"
    and len: "int (length new) \<le> max 0 \<lceil>2 * (max_height - y_bases s ! i)\<rceil>"
    and sr: "srfs s1 = srfs s @ filter (\<lambda>x. x \<noteq> None) (map psrf new)"
    and all: "\<forall>p \<in> set new. pcol p = i \<and> y_bases s ! i \<le> py0 p \<and>
           (psite p = Fit \<and> (\<exists>k. (k, py1 p - py0 p) \<in> set bucket_heights \<and>
                (\<forall>l. player p = Some l \<longrightarrow>
                   (if \<bar>max_height - py1 p\<bar> < 1 / 1000000
                    then l \<in> set (existing_layers s) else l = layer_of k)))
            \<or> psite p = Fallback \<and> py1 p - py0 p < 1 / 2 \<and> py1 p = max_height \<and>
                (\<forall>l. player p = Some l \<longrightarrow> l \<in> set (existing_layers s)))"
    and fr: "y_bases s1 = y_bases s" "existing_layers s1 = existing_layers s"
      "srf_ok s1 = srf_ok s" "rnd s1 = rnd s" "doc_layers s1 = doc_layers s"
    by blast
  from all have cp: "\<forall>p \<in> set new. pcol p = i \<and> closer_panel max_height (existing_layers s) p"
    unfolding closer_panel_def by blast
  show ?thesis
  proof (cases "1 / 1000 \<le> gap")
    case False
    then have "s' = s1" using g by (simp add: residual_guard_def)
    with i n len sr cp fr show ?thesis by auto
  next
    case True
    from residual_guard_Inr [OF g True] obtain tag where
      c: "calls s' = calls s1 @ [\<lparr>pcol = i, py0 = cy, py1 = cy + gap,
        psrf = (if srf_ok s1 (length (calls s1)) then Some (length (calls s1)) else None),
        player = tag, psite = Residual\<rparr>]"
      and tag: "\<forall>l. tag = Some l \<longrightarrow> l \<in> set (existing_layers s1)"
      and sr2: "srfs s' = srfs s1 @
        (if srf_ok s1 (length (calls s1)) then [Some (length (calls s1))] else [])"
      and fr2: "y_bases s' = y_bases s1" "existing_layers s' = existing_layers s1"
        "srf_ok s' = srf_ok s1" "rnd s' = rnd s1" "doc_layers s' = doc_layers s1"
      by blast
    let ?p = "\<lparr>pcol = i, py0 = cy, py1 = cy + gap,
        psrf = (if srf_ok s1 (length (calls s1)) then Some (length (calls s1)) else None),
        player = tag, psite = Residual\<rparr>"
    have "closer_panel max_height (existing_layers s) ?p"
      using gap(2) tag fr(2) by (simp add: closer_panel_def)
    with cp have cp': "\<forall>p \<in> set (new @ [?p]). pcol p = i \<and> closer_panel max_height (existing_layers s) p"
      by auto
    have c': "calls s' = calls s @ (new @ [?p])" using c n by simp
    have len': "int (length (new @ [?p])) \<le> max 0 \<lceil>2 * (max_height - y_bases s ! i)\<rceil> + 1"
      using len by simp
    have sr': "srfs s' = srfs s @ filter (\<lambda>x. x \<noteq> None) (map psrf (new @ [?p]))"
      using sr sr2 by simp
    have ex: "\<exists>new. calls s' = calls s @ new \<and>
        int (length new) \<le> max 0 \<lceil>2 * (max_height - y_bases s ! i)\<rceil> + 1 \<and>
        srfs s' = srfs s @ filter (\<lambda>x. x \<noteq> None) (map psrf new) \<and>
        (\<forall>p \<in> set new. pcol p = i \<and> closer_panel max_height (existing_layers s) p)"
      by (rule exI [of _ "new @ [?p]"]) (intro conjI c' len' sr' cp')
    from i ex fr2 show ?thesis
      unfolding fr by (intro conjI)
  qed
qed

lemma for_each_append:
  "for_each f (xs @ ys) s = (case for_each f xs s of Inl e \<Rightarrow> Inl e | Inr s' \<Rightarrow> for_each f ys s')"
  by (induction xs arbitrary: s) (auto split: sum.splits)

lemma for_each_fill_column:
  assumes "for_each (fill_column max_height) cols s = Inr s'"
  shows "(\<exists>new. calls s' = calls s @ new \<and>
        srfs s' = srfs s @ filter (\<lambda>x. x \<noteq> None) (map psrf new) \<and>
        (\<forall>p \<in> set new. pcol p \<in> set cols \<and> closer_panel max_height (existing_layers s) p)) \<and>
     y_bases s' = y_bases s \<and> existing_layers s' = existing_layers s \<and>
     srf_ok s' = srf_ok s \<and> rnd s' = rnd s \<and> doc_layers s' = doc_layers s"
  using assms
proof (induction cols arbitrary: s)
  case Nil
  then show ?case by simp
next
  case (Cons i cols)
  from Cons.prems obtain s1 where f: "fill_column max_height i s = Inr s1"
    and r: "for_each (fill_column max_height) cols s1 = Inr s'"
    by (auto split: sum.splits)
  from fill_column_Inr [OF f] obtain new1 where n1: "calls s1 = calls s @ new1"
    and sr1: "srfs s1 = srfs s @ filter (\<lambda>x. x \<noteq> None) (map psrf new1)"
    and a1: "\<forall>p \<in> set new1. pcol p = i \<and> closer_panel max_height (existing_layers s) p"
    and fr1: "y_bases s1 = y_bases s" "existing_layers s1 = existing_layers s"
      "srf_ok s1 = srf_ok s" "rnd s1 = rnd s" "doc_layers s1 = doc_layers s"
    by blast
  from Cons.IH [OF r] obtain new2 where n2: "calls s' = calls s1 @ new2"
    and sr2: "srfs s' = srfs s1 @ filter (\<lambda>x. x \<noteq> None) (map psrf new2)"
    and a2: "\<forall>p \<in> set new2. pcol p \<in> set cols \<and> closer_panel max_height (existing_layers s1) p"
    and fr2: "y_bases s' = y_bases s1" "existing_layers s' = existing_layers s1"
      "srf_ok s' = srf_ok s1" "rnd s' = rnd s1" "doc_layers s' = doc_layers s1"
    by blast
  have c: "calls s' = calls s @ (new1 @ new2)" using n1 n2 by simp
  have sr: "srfs s' = srfs s @ filter (\<lambda>x. x \<noteq> None) (map psrf (new1 @ new2))"
    using sr1 sr2 by simp
  have a: "\<forall>p \<in> set (new1 @ new2). pcol p \<in> set (i # cols) \<and>
      closer_panel max_height (existing_layers s) p"
    using a1 a2 fr1(2) by auto
  have ex: "\<exists>new. calls s' = calls s @ new \<and>
        srfs s' = srfs s @ filter (\<lambda>x. x \<noteq> None) (map psrf new) \<and>
        (\<forall>p \<in> set new. pcol p \<in> set (i # cols) \<and> closer_panel max_height (existing_layers s) p)"
    by (rule exI [of _ "new1 @ new2"]) (intro conjI c sr a)
  from ex fr2 show ?case
    unfolding fr1 by (intro conjI)
qed

lemma close_gaps_Inr:
  assumes "close_gaps xNum s = Inr s'"
  shows "\<exists>max_height new. py_max (y_bases s) = Inr max_height \<and>
        calls s' = calls s @ new \<and>
        srfs s' = srfs s @ filter (\<lambda>x. x \<noteq> None) (map psrf new) \<and>
        (\<forall>p \<in> set new. pcol p < nat xNum \<and> closer_panel max_height (existing_layers s) p) \<and>
     y_bases s' = y_bases s \<and> existing_layers s' = existing_layers s \<and>
     srf_ok s' = srf_ok s \<and> rnd s' = rnd s \<and> doc_layers s' = doc_layers s"
proof -
  from assms obtain mh where m: "py_max (y_bases s) = Inr mh"
    and f: "for_each (fill_column mh) (py_range xNum) s = Inr s'"
    by (auto simp: close_gaps_def split: sum.splits)
  from for_each_fill_column [OF f] m show ?thesis
    by (auto simp: py_range_def)
qed

lemma min_catalog_height: "Min (snd ` set bucket_heights) = 1 / 2"
  by (simp add: bucket_heights_eq)

lemma layer_of_1: "layer_of 1 = ''Height_Group_1''" by code_simp
lemma layer_of_2: "layer_of 2 = ''Height_Group_2''" by code_simp
lemma layer_of_3: "layer_of 3 = ''Height_Group_3''" by code_simp
lemma layer_of_6: "layer_of 6 = ''Height_Group_6''" by code_simp

lemma for_each_invariant:
  assumes "for_each f xs s = Inr s'" and "P s"
    and "\<And>x t t'. x \<in> set xs \<Longrightarrow> P t \<Longrightarrow> f x t = Inr t' \<Longrightarrow> P t'"
  shows "P s'"
  using assms
proof (induction xs arbitrary: s)
  case Nil
  then show ?case by simp
next
  case (Cons x xs)
  from Cons.prems(1) obtain t where f: "f x s = Inr t" and r: "for_each f xs t = Inr s'"
    by (auto split: sum.splits)
  from Cons.prems(3) [OF _ Cons.prems(2) f] have t: "P t" by simp
  show ?case
  proof (rule Cons.IH [OF r t])
    fix y u u' assume "y \<in> set xs" "P u" "f y u = Inr u'"
    then show "P u'" using Cons.prems(3) [of y u u'] by simp
  qed
qed

lemma for_each_total:
  assumes "P s" and "\<And>x t. x \<in> set xs \<Longrightarrow> P t \<Longrightarrow> \<exists>t'. f x t = Inr t' \<and> P t'"
  shows "\<exists>s'. for_each f xs s = Inr s' \<and> P s'"
  using assms
proof (induction xs arbitrary: s)
  case Nil
  then show ?case by simp
next
  case (Cons x xs)
  from Cons.prems(2) [OF _ Cons.prems(1)] obtain t where f: "f x s = Inr t" and t: "P t"
    by auto
  from Cons.IH [OF t] Cons.prems(2) obtain s' where "for_each f xs t = Inr s'" and "P s'"
    by auto
  with f show ?case by simp
qed

lemma col_top_Nil: "col_top i [] = 0"
  by (simp add: col_top_def)

lemma col_top_snoc: "col_top i (ps @ [p]) = (if pcol p = i then py1 p else col_top i ps)"
  by (simp add: col_top_def)

lemma col_top_append_other:
  "\<forall>p\<in>set qs. pcol p \<noteq> i \<Longrightarrow> col_top i (ps @ qs) = col_top i ps"
proof (induction qs rule: rev_induct)
  case Nil
  then show ?case by simp
next
  case (snoc q qs)
  then have "col_top i ((ps @ qs) @ [q]) = col_top i (ps @ qs)"
    by (simp only: col_top_snoc) simp
  with snoc show ?case by simp
qed

lemma stack_inv_init: "stack_inv (nat xNum) (init_state xNum r ok layers)"
  by (simp add: stack_inv_def init_state_def py_range_def col_top_Nil)

lemma stack_cell_inv:
  assumes "stack_inv x s" and "stack_cell i s = Inr s'"
  shows "stack_inv x s' \<and> existing_layers s' \<noteq> []"
proof -
  from stack_cell_Inr [OF assms(2)] obtain k where k: "1 \<le> k" "k \<le> 6"
    and i: "i < length (y_bases s)"
    and yb: "y_bases s' = (y_bases s)[i := y_bases s ! i + of_int k / 2]"
    and c: "calls s' = calls s @ [\<lparr>pcol = i, py0 = y_bases s ! i,
        py1 = y_bases s ! i + of_int k / 2,
        psrf = (if srf_ok s (length (calls s)) then Some (length (calls s)) else None),
        player = (if srf_ok s (length (calls s)) then Some (layer_of k) else None),
        psite = Stacked\<rparr>]"
    and sr: "srfs s' = srfs s @ [if srf_ok s (length (calls s)) then Some (length (calls s)) else None]"
    and el: "existing_layers s' = (if IsLayer (layer_of k) s \<and> layer_of k \<in> set (existing_layers s)
         then existing_layers s else existing_layers s @ [layer_of k])"
    by blast
  from assms(1) have len: "length (y_bases s) = x"
    and top: "\<forall>j<x. col_top j (calls s) = y_bases s ! j"
    and half: "\<forall>y\<in>set (y_bases s). \<exists>m::nat. y = of_nat m / 2"
    and srf: "srfs s = map psrf (calls s)"
    and site: "\<forall>p\<in>set (calls s). psite p = Stacked \<and> pcol p < x"
    by (simp_all add: stack_inv_def)
  have ne: "existing_layers s' \<noteq> []"
    unfolding el by auto
  have len': "length (y_bases s') = x"
    using len yb by simp
  have top': "\<forall>j<x. col_top j (calls s') = y_bases s' ! j"
    using top i len by (auto simp: c yb col_top_snoc nth_list_update)
  have half': "\<forall>y\<in>set (y_bases s'). \<exists>m::nat. y = of_nat m / 2"
  proof
    fix y assume "y \<in> set (y_bases s')"
    then have "y \<in> set (y_bases s) \<or> y = y_bases s ! i + of_int k / 2"
      unfolding yb using set_update_subset_insert [of "y_bases s" i] by auto
    then show "\<exists>m::nat. y = of_nat m / 2"
    proof
      assume "y \<in> set (y_bases s)"
      with half show ?thesis by blast
    next
      assume y: "y = y_bases s ! i + of_int k / 2"
      from half i obtain m :: nat where "y_bases s ! i = of_nat m / 2"
        using nth_mem by blast
      with y k have "y = of_nat (m + nat k) / 2"
        by (simp add: add_divide_distrib)
      then show ?thesis ..
    qed
  qed
  have srf': "srfs s' = map psrf (calls s')"
    using srf sr c by simp
  have site': "\<forall>p\<in>set (calls s'). psite p = Stacked \<and> pcol p < x"
    using site i len by (auto simp: c)
  from len' top' half' ne srf' site' show ?thesis
    by (simp add: stack_inv_def)
qed

lemma stack_row_inv:
  assumes "stack_inv (nat xNum) s"
  shows "\<exists>s'. stack_row xNum s = Inr s' \<and> stack_inv (nat xNum) s' \<and>
     (0 < xNum \<longrightarrow> existing_layers s' \<noteq> [])"
proof -
  let ?P = "\<lambda>t. stack_inv (nat xNum) t"
  have step: "\<exists>t'. stack_cell i t = Inr t' \<and> ?P t'" if "i \<in> set (py_range xNum)" "?P t" for i t
  proof -
    from that have "i < length (y_bases t)"
      by (simp add: stack_inv_def py_range_def)
    from stack_cell_total [OF this] obtain t' where "stack_cell i t = Inr t'" ..
    with stack_cell_inv [OF that(2)] show ?thesis by blast
  qed
  from for_each_total [of ?P s "py_range xNum" stack_cell, OF assms step]
  obtain s' where r: "stack_row xNum s = Inr s'" and inv: "stack_inv (nat xNum) s'"
    by (auto simp: stack_row_def)
  have "existing_layers s' \<noteq> []" if "0 < xNum"
  proof -
    from that have "py_range xNum = py_range (xNum - 1) @ [nat (xNum - 1)]"
      by (simp add: py_range_def nat_diff_distrib flip: upt_Suc_append)
    with r obtain t where t: "for_each stack_cell (py_range (xNum - 1)) s = Inr t"
      and c: "stack_cell (nat (xNum - 1)) t = Inr s'"
      by (auto simp: stack_row_def for_each_append split: sum.splits)
    have "stack_inv (nat xNum) t"
    proof (rule for_each_invariant [of stack_cell _ s t ?P, OF t assms])
      fix i u u' assume "stack_inv (nat xNum) u" "stack_cell i u = Inr u'"
      then show "stack_inv (nat xNum) u'" using stack_cell_inv by blast
    qed
    with c stack_cell_inv show ?thesis by blast
  qed
  with r inv show ?thesis by blast
qed

lemma stack_rows_inv:
  assumes "stack_inv (nat xNum) s"
  shows "\<exists>s'. stack_rows xNum yNum s = Inr s' \<and> stack_inv (nat xNum) s'"
proof -
  have "\<exists>t'. stack_row xNum t = Inr t' \<and> stack_inv (nat xNum) t'"
    if "stack_inv (nat xNum) t" for t
    using stack_row_inv [OF that] by blast
  from for_each_total [of "stack_inv (nat xNum)" s "py_range yNum" "\<lambda>n. stack_row xNum", OF assms this]
  show ?thesis by (simp add: stack_rows_def)
qed

lemma py_max_Inr:
  assumes "py_max ys = Inr mh"
  shows "mh \<in> set ys \<and> (\<forall>y\<in>set ys. y \<le> mh)"
proof (cases ys)
  case Nil
  with assms show ?thesis by simp
next
  case (Cons y ys')
  with assms have "fold max ys' y = mh" by simp
  then have "Max (set (y # ys')) = mh"
    by (simp only: Max.set_eq_fold)
  with Cons have "mh = Max (set ys)" by simp
  moreover have "finite (set ys)" "set ys \<noteq> {}" using Cons by simp_all
  ultimately show ?thesis
    using Max_in Max_ge by blast
qed

lemma py_max_total: "ys \<noteq> [] \<Longrightarrow> \<exists>mh. py_max ys = Inr mh"
  by (cases ys) simp_all

lemma bucket_half:
  assumes "(k, h) \<in> set bucket_heights"
  shows "\<exists>j::nat. 1 \<le> j \<and> j \<le> 6 \<and> h = of_nat j / 2"
proof -
  from assms have "h = 1 / 2 \<or> h = 1 \<or> h = 3 / 2 \<or> h = 2 \<or> h = 5 / 2 \<or> h = 3"
    by (auto simp: bucket_heights_eq)
  then show ?thesis
  proof (elim disjE)
    assume "h = 1 / 2"
    then show ?thesis by (intro exI [of _ "1::nat"]) simp
  next
    assume "h = 1"
    then show ?thesis by (intro exI [of _ "2::nat"]) simp
  next
    assume "h = 3 / 2"
    then show ?thesis by (intro exI [of _ "3::nat"]) simp
  next
    assume "h = 2"
    then show ?thesis by (intro exI [of _ "4::nat"]) simp
  next
    assume "h = 5 / 2"
    then show ?thesis by (intro exI [of _ "5::nat"]) simp
  next
    assume "h = 3"
    then show ?thesis by (intro exI [of _ "6::nat"]) simp
  qed
qed

lemma fit_step_total:
  assumes "valid_fits \<noteq> []" and "existing_layers s \<noteq> []"
  shows "\<exists>y1 s'. fit_step i gap current_y valid_fits s = Inr (y1, s')"
  using assms
  by (auto simp: fit_step_def random_choice_def AddSrfPt_def Let_def
      split: sum.splits prod.splits option.splits)

lemma while_gap_half:
  assumes "max_height - current_y = of_nat m / 2"
    and "0 < m \<longrightarrow> existing_layers s \<noteq> []"
  shows "\<exists>s' new. while_gap i max_height current_y s = Inr (max_height, 0, s') \<and>
     calls s' = calls s @ new \<and> length new \<le> m \<and>
     (\<forall>p\<in>set new. pcol p = i \<and> psite p = Fit) \<and>
     col_top i (calls s') = (if m = 0 then col_top i (calls s) else max_height)"
  using assms
proof (induction m arbitrary: current_y s rule: less_induct)
  case (less m)
  let ?gap = "max_height - current_y"
  show ?case
  proof (cases "m = 0")
    case True
    with less.prems(1) have "?gap = 0" by simp
    then have "while_gap i max_height current_y s = Inr (max_height, 0, s)"
      by (simp add: while_gap.simps)
    with True show ?thesis by simp
  next
    case False
    then have m: "0 < m" by simp
    with less.prems(2) have reg: "existing_layers s \<noteq> []" by simp
    from m have "(1::rat) \<le> of_nat m" by simp
    with less.prems(1) have half: "1 / 2 \<le> ?gap" by simp
    then have gap: "1 / 1000 < ?gap" by simp
    from half have fits: "valid_fits_of ?gap \<noteq> []"
      by (simp add: valid_fits_of_empty)
    from fit_step_total [OF fits reg] obtain y1 s1 where
      f: "fit_step i ?gap current_y (valid_fits_of ?gap) s = Inr (y1, s1)"
      by blast
    from fit_step_Inr [OF f] obtain k h tag where kh: "(k, h) \<in> set (valid_fits_of ?gap)"
      and y1: "y1 = current_y + h"
      and c1: "calls s1 = calls s @ [\<lparr>pcol = i, py0 = current_y, py1 = current_y + h,
          psrf = (if srf_ok s (length (calls s)) then Some (length (calls s)) else None),
          player = tag, psite = Fit\<rparr>]"
      and e1: "existing_layers s1 = existing_layers s"
      by blast
    let ?p = "\<lparr>pcol = i, py0 = current_y, py1 = current_y + h,
          psrf = (if srf_ok s (length (calls s)) then Some (length (calls s)) else None),
          player = tag, psite = Fit\<rparr>"
    from kh have bh: "(k, h) \<in> set bucket_heights" and le: "h \<le> ?gap + 1 / 1000000"
      by (simp_all add: valid_fits_of_mem)
    from bucket_half [OF bh] obtain j :: nat where j: "1 \<le> j" and h: "h = of_nat j / 2"
      by blast
    have jm: "j \<le> m"
    proof (rule ccontr)
      assume "\<not> j \<le> m"
      then have "m + 1 \<le> j" by simp
      then have "(of_nat m :: rat) + 1 \<le> of_nat j"
        by (metis of_nat_le_iff of_nat_add of_nat_1)
      with le h less.prems(1) show False by simp
    qed
    have rest: "max_height - y1 = of_nat (m - j) / 2"
      using less.prems(1) y1 h jm by (simp add: of_nat_diff diff_divide_distrib)
    have lt: "m - j < m" using j m by simp
    have reg1: "0 < m - j \<longrightarrow> existing_layers s1 \<noteq> []"
      using reg e1 by simp
    from less.IH [OF lt rest reg1] obtain s' new where
      w: "while_gap i max_height y1 s1 = Inr (max_height, 0, s')"
      and c: "calls s' = calls s1 @ new" and len: "length new \<le> m - j"
      and all: "\<forall>p\<in>set new. pcol p = i \<and> psite p = Fit"
      and top: "col_top i (calls s') = (if m - j = 0 then col_top i (calls s1) else max_height)"
      by blast
    from gap fits f w have w': "while_gap i max_height current_y s = Inr (max_height, 0, s')"
      by (subst while_gap.simps) (simp add: Let_def)
    have c': "calls s' = calls s @ (?p # new)"
      using c c1 by simp
    have len': "length (?p # new) \<le> m"
      using len j jm by simp
    have all': "\<forall>p\<in>set (?p # new). pcol p = i \<and> psite p = Fit"
      using all by simp
    have "col_top i (calls s1) = y1"
      by (simp add: c1 col_top_snoc y1)
    moreover have "m - j = 0 \<Longrightarrow> y1 = max_height"
      using rest by simp
    ultimately have top': "col_top i (calls s') = max_height"
      using top by (cases "m - j = 0") simp_all
    from w' c' len' all' top' m show ?thesis
      by (intro exI [of _ s'] exI [of _ "?p # new"]) simp
  qed
qed

lemma fill_column_half:
  assumes i: "i < length (y_bases s)"
    and half: "\<forall>y\<in>set (y_bases s). \<exists>m::nat. y = of_nat m / 2"
    and reg: "existing_layers s = [] \<longrightarrow> (\<forall>y\<in>set (y_bases s). y = 0)"
    and mx: "py_max (y_bases s) = Inr max_height"
    and M: "max_height = of_nat M / 2"
  shows "\<exists>s' new. fill_column max_height i s = Inr s' \<and>
     calls s' = calls s @ new \<and> length new \<le> M \<and>
     (\<forall>p\<in>set new. pcol p = i \<and> psite p = Fit) \<and>
     col_top i (calls s') = (if y_bases s ! i = max_height then col_top i (calls s) else max_height)"
proof -
  from i have mem: "y_bases s ! i \<in> set (y_bases s)" by simp
  with half obtain a :: nat where a: "y_bases s ! i = of_nat a / 2" by blast
  from py_max_Inr [OF mx] mem have le: "y_bases s ! i \<le> max_height" by blast
  with a M have aM: "a \<le> M" by simp
  have gap: "max_height - y_bases s ! i = of_nat (M - a) / 2"
    using a M aM by (simp add: of_nat_diff diff_divide_distrib)
  have r: "0 < M - a \<longrightarrow> existing_layers s \<noteq> []"
  proof (intro impI notI)
    assume "0 < M - a" and "existing_layers s = []"
    with reg have z: "\<forall>y\<in>set (y_bases s). y = 0" by simp
    from py_max_Inr [OF mx] z have "max_height = 0" by blast
    moreover from z mem have "y_bases s ! i = 0" by blast
    ultimately have "(of_nat (M - a) :: rat) = 0" using gap by simp
    with \<open>0 < M - a\<close> show False by simp
  qed
  from while_gap_half [OF gap r] obtain s' new where
    w: "while_gap i max_height (y_bases s ! i) s = Inr (max_height, 0, s')"
    and c: "calls s' = calls s @ new" and len: "length new \<le> M - a"
    and all: "\<forall>p\<in>set new. pcol p = i \<and> psite p = Fit"
    and top: "col_top i (calls s') = (if M - a = 0 then col_top i (calls s) else max_height)"
    by blast
  from w i have f: "fill_column max_height i s = Inr s'"
    by (simp add: fill_column_def py_get_def residual_guard_skip)
  have "M - a = 0 \<longleftrightarrow> y_bases s ! i = max_height"
    using gap aM by auto
  with top have top': "col_top i (calls s') =
      (if y_bases s ! i = max_height then col_top i (calls s) else max_height)"
    by simp
  from len have "length new \<le> M" by simp
  with f c all top' show ?thesis by blast
qed

lemma for_each_fill_half:
  assumes "set cols \<subseteq> {..<length (y_bases s)}" and "distinct cols"
    and half: "\<forall>y\<in>set (y_bases s). \<exists>m::nat. y = of_nat m / 2"
    and reg: "existing_layers s = [] \<longrightarrow> (\<forall>y\<in>set (y_bases s). y = 0)"
    and mx: "py_max (y_bases s) = Inr max_height"
    and M: "max_height = of_nat M / 2"
  shows "\<exists>s' new. for_each (fill_column max_height) cols s = Inr s' \<and>
     calls s' = calls s @ new \<and> length new \<le> length cols * M \<and>
     (\<forall>p\<in>set new. pcol p \<in> set cols \<and> psite p = Fit) \<and>
     (\<forall>i\<in>set cols. col_top i (calls s') =
        (if y_bases s ! i = max_height then col_top i (calls s) else max_height))"
  using assms(1-5)
proof (induction cols arbitrary: s)
  case Nil
  then show ?case by simp
next
  case (Cons i cols)
  from Cons.prems(1) have i: "i < length (y_bases s)" by simp
  from fill_column_half [OF i Cons.prems(3,4,5) M] obtain s1 new1 where
    f: "fill_column max_height i s = Inr s1"
    and c1: "calls s1 = calls s @ new1" and len1: "length new1 \<le> M"
    and all1: "\<forall>p\<in>set new1. pcol p = i \<and> psite p = Fit"
    and top1: "col_top i (calls s1) =
      (if y_bases s ! i = max_height then col_top i (calls s) else max_height)"
    by blast
  from fill_column_Inr [OF f] have fr: "y_bases s1 = y_bases s" "existing_layers s1 = existing_layers s"
    by simp_all
  have p1: "set cols \<subseteq> {..<length (y_bases s1)}" using Cons.prems(1) fr by simp
  have p2: "distinct cols" using Cons.prems(2) by simp
  from Cons.IH [OF p1 p2] Cons.prems(3,4,5) fr obtain s' new2 where
    r: "for_each (fill_column max_height) cols s1 = Inr s'"
    and c2: "calls s' = calls s1 @ new2" and len2: "length new2 \<le> length cols * M"
    and all2: "\<forall>p\<in>set new2. pcol p \<in> set cols \<and> psite p = Fit"
    and top2: "\<forall>j\<in>set cols. col_top j (calls s') =
        (if y_bases s ! j = max_height then col_top j (calls s1) else max_height)"
    by auto
  have new2_not_i: "\<forall>p\<in>set new2. pcol p \<noteq> i"
    using all2 Cons.prems(2) by auto
  have new1_not: "\<forall>p\<in>set new1. pcol p \<noteq> j" if "j \<in> set cols" for j
    using all1 Cons.prems(2) that by auto
  have e: "for_each (fill_column max_height) (i # cols) s = Inr s'"
    using f r by simp
  have c: "calls s' = calls s @ (new1 @ new2)" using c1 c2 by simp
  have len: "length (new1 @ new2) \<le> length (i # cols) * M"
    using len1 len2 by simp
  have all: "\<forall>p\<in>set (new1 @ new2). pcol p \<in> set (i # cols) \<and> psite p = Fit"
    using all1 all2 by auto
  have top: "\<forall>j\<in>set (i # cols). col_top j (calls s') =
        (if y_bases s ! j = max_height then col_top j (calls s) else max_height)"
  proof
    fix j assume "j \<in> set (i # cols)"
    then consider "j = i" | "j \<in> set cols" by auto
    then show "col_top j (calls s') =
        (if y_bases s ! j = max_height then col_top j (calls s) else max_height)"
    proof cases
      case 1
      have "col_top i (calls s') = col_top i (calls s1)"
        unfolding c2 using new2_not_i by (rule col_top_append_other)
      with 1 top1 show ?thesis by simp
    next
      case 2
      have "col_top j (calls s1) = col_top j (calls s)"
        unfolding c1 using new1_not [OF 2] by (rule col_top_append_other)
      with 2 top2 show ?thesis by simp
    qed
  qed
  from e c len all top show ?case by blast
qed

lemma stack_cells_count:
  assumes "for_each stack_cell cols s = Inr s'" and "distinct cols"
  shows "length (calls s') = length (calls s) + length cols \<and>
     length (y_bases s') = length (y_bases s) \<and>
     (\<forall>j<length (y_bases s). y_bases s' ! j \<le> y_bases s ! j + (if j \<in> set cols then 3 else 0))"
  using assms
proof (induction cols arbitrary: s)
  case Nil
  then show ?case by simp
next
  case (Cons i cols)
  from Cons.prems(1) obtain s1 where f: "stack_cell i s = Inr s1"
    and r: "for_each stack_cell cols s1 = Inr s'"
    by (auto split: sum.splits)
  from stack_cell_Inr [OF f] obtain k where k: "1 \<le> k" "k \<le> 6"
    and i: "i < length (y_bases s)"
    and yb: "y_bases s1 = (y_bases s)[i := y_bases s ! i + of_int k / 2]"
    and c: "length (calls s1) = length (calls s) + 1"
    by auto
  from k have k3: "(of_int k :: rat) / 2 \<le> 3" by simp
  from Cons.prems(2) have d: "distinct cols" and ni: "i \<notin> set cols" by simp_all
  from Cons.IH [OF r d] have c': "length (calls s') = length (calls s1) + length cols"
    and l': "length (y_bases s') = length (y_bases s1)"
    and b': "\<forall>j<length (y_bases s1). y_bases s' ! j \<le> y_bases s1 ! j + (if j \<in> set cols then 3 else 0)"
    by simp_all
  have "\<forall>j<length (y_bases s). y_bases s' ! j \<le> y_bases s ! j + (if j \<in> set (i # cols) then 3 else 0)"
  proof (intro allI impI)
    fix j assume j: "j < length (y_bases s)"
    with b' yb have b: "y_bases s' ! j \<le> y_bases s1 ! j + (if j \<in> set cols then 3 else 0)"
      by simp
    show "y_bases s' ! j \<le> y_bases s ! j + (if j \<in> set (i # cols) then 3 else 0)"
    proof (cases "j = i")
      case True
      with b ni yb i k3 show ?thesis by simp
    next
      case False
      with b yb show ?thesis by simp
    qed
  qed
  with c c' l' yb show ?case by simp
qed

lemma stack_row_count:
  assumes "stack_row xNum s = Inr s'"
  shows "length (calls s') = length (calls s) + nat xNum \<and>
     length (y_bases s') = length (y_bases s) \<and>
     (\<forall>j<length (y_bases s). y_bases s' ! j \<le> y_bases s ! j + 3)"
proof -
  from assms have "for_each stack_cell [0..<nat xNum] s = Inr s'"
    by (simp add: stack_row_def py_range_def)
  from stack_cells_count [OF this] have "length (calls s') = length (calls s) + nat xNum"
    and "length (y_bases s') = length (y_bases s)"
    and b: "\<forall>j<length (y_bases s). y_bases s' ! j \<le>
        y_bases s ! j + (if j \<in> set [0..<nat xNum] then 3 else 0)"
    by simp_all
  moreover have "\<forall>j<length (y_bases s). y_bases s' ! j \<le> y_bases s ! j + 3"
  proof (intro allI impI)
    fix j assume "j < length (y_bases s)"
    with b have "y_bases s' ! j \<le> y_bases s ! j + (if j \<in> set [0..<nat xNum] then 3 else 0)"
      by blast
    also have "\<dots> \<le> y_bases s ! j + 3" by simp
    finally show "y_bases s' ! j \<le> y_bases s ! j + 3" .
  qed
  ultimately show ?thesis by simp
qed

lemma stack_rows_count_aux:
  assumes "for_each (\<lambda>n. stack_row xNum) ns s = Inr s'"
  shows "length (calls s') = length (calls s) + length ns * nat xNum \<and>
     length (y_bases s') = length (y_bases s) \<and>
     (\<forall>j<length (y_bases s). y_bases s' ! j \<le> y_bases s ! j + 3 * of_nat (length ns))"
  using assms
proof (induction ns arbitrary: s)
  case Nil
  then show ?case by simp
next
  case (Cons n ns)
  from Cons.prems obtain s1 where f: "stack_row xNum s = Inr s1"
    and r: "for_each (\<lambda>n. stack_row xNum) ns s1 = Inr s'"
    by (auto split: sum.splits)
  from stack_row_count [OF f] have c1: "length (calls s1) = length (calls s) + nat xNum"
    and l1: "length (y_bases s1) = length (y_bases s)"
    and b1: "\<forall>j<length (y_bases s). y_bases s1 ! j \<le> y_bases s ! j + 3"
    by simp_all
  from Cons.IH [OF r] have c2: "length (calls s') = length (calls s1) + length ns * nat xNum"
    and l2: "length (y_bases s') = length (y_bases s1)"
    and b2: "\<forall>j<length (y_bases s1). y_bases s' ! j \<le> y_bases s1 ! j + 3 * of_nat (length ns)"
    by simp_all
  have "\<forall>j<length (y_bases s). y_bases s' ! j \<le> y_bases s ! j + 3 * of_nat (length (n # ns))"
  proof (intro allI impI)
    fix j assume j: "j < length (y_bases s)"
    with b1 have "y_bases s1 ! j \<le> y_bases s ! j + 3" by blast
    moreover from j b2 l1 have "y_bases s' ! j \<le> y_bases s1 ! j + 3 * of_nat (length ns)" by simp
    ultimately show "y_bases s' ! j \<le> y_bases s ! j + 3 * of_nat (length (n # ns))"
      by simp
  qed
  with c1 c2 l1 l2 show ?case by simp
qed

lemma stack_rows_count:
  assumes "stack_rows xNum yNum s = Inr s'"
  shows "length (calls s') = length (calls s) + nat yNum * nat xNum \<and>
     length (y_bases s') = length (y_bases s) \<and>
     (\<forall>j<length (y_bases s). y_bases s' ! j \<le> y_bases s ! j + 3 * of_nat (nat yNum))"
  using stack_rows_count_aux [of xNum "py_range yNum" s s'] assms
  by (simp add: stack_rows_def py_range_def)

lemma pav_run:
  assumes "0 < xNum"
  shows "\<exists>s1 s max_height new.
     stack_rows xNum yNum (init_state xNum r ok layers) = Inr s1 \<and>
     stack_inv (nat xNum) s1 \<and> length (calls s1) = nat yNum * nat xNum \<and>
     py_max (y_bases s1) = Inr max_height \<and>
     pavPattern xNum yNum r ok layers = Inr s \<and>
     calls s = calls s1 @ new \<and> length new \<le> nat xNum * (6 * nat yNum) \<and>
     (\<forall>p\<in>set new. pcol p < nat xNum \<and> psite p = Fit) \<and>
     (\<forall>i<nat xNum. col_top i (calls s) = max_height) \<and>
     y_bases s = y_bases s1 \<and> existing_layers s = existing_layers s1 \<and>
     srfs s = srfs s1 @ filter (\<lambda>x. x \<noteq> None) (map psrf new)"
proof -
  let ?s0 = "init_state xNum r ok layers"
  from stack_rows_inv [OF stack_inv_init] obtain s1 where
    st: "stack_rows xNum yNum ?s0 = Inr s1" and inv: "stack_inv (nat xNum) s1"
    by blast
  from inv have len: "length (y_bases s1) = nat xNum"
    and top: "\<forall>i<nat xNum. col_top i (calls s1) = y_bases s1 ! i"
    and half: "\<forall>y\<in>set (y_bases s1). \<exists>m::nat. y = of_nat m / 2"
    and reg: "existing_layers s1 = [] \<longrightarrow> (\<forall>y\<in>set (y_bases s1). y = 0)"
    by (simp_all add: stack_inv_def)
  from stack_rows_count [OF st] have cnt: "length (calls s1) = nat yNum * nat xNum"
    and ub: "\<forall>j<nat xNum. y_bases s1 ! j \<le> 3 * of_nat (nat yNum)"
    by (simp_all add: init_state_def py_range_def)
  from len assms have "y_bases s1 \<noteq> []" by auto
  from py_max_total [OF this] obtain mh where mx: "py_max (y_bases s1) = Inr mh" ..
  from py_max_Inr [OF mx] have mem: "mh \<in> set (y_bases s1)" by blast
  with half obtain M :: nat where M: "mh = of_nat M / 2" by blast
  from mem obtain j where "j < length (y_bases s1)" "y_bases s1 ! j = mh"
    by (auto simp: in_set_conv_nth)
  with ub len have "mh \<le> 3 * of_nat (nat yNum)" by auto
  with M have "(of_nat M :: rat) \<le> of_nat (6 * nat yNum)" by simp
  then have M6: "M \<le> 6 * nat yNum" by (simp only: of_nat_le_iff)
  have cols: "set [0..<nat xNum] \<subseteq> {..<length (y_bases s1)}" "distinct [0..<nat xNum]"
    using len by auto
  from for_each_fill_half [OF cols half reg mx M] obtain s new where
    fe: "for_each (fill_column mh) [0..<nat xNum] s1 = Inr s"
    and c: "calls s = calls s1 @ new" and ln: "length new \<le> length [0..<nat xNum] * M"
    and all: "\<forall>p\<in>set new. pcol p \<in> set [0..<nat xNum] \<and> psite p = Fit"
    and tp: "\<forall>i\<in>set [0..<nat xNum]. col_top i (calls s) =
        (if y_bases s1 ! i = mh then col_top i (calls s1) else mh)"
    by blast
  from fe mx have cg: "close_gaps xNum s1 = Inr s"
    by (simp add: close_gaps_def py_range_def)
  with st have pv: "pavPattern xNum yNum r ok layers = Inr s"
    by (simp add: pavPattern_def)
  from close_gaps_Inr [OF cg] c have fr: "y_bases s = y_bases s1"
    "existing_layers s = existing_layers s1"
    "srfs s = srfs s1 @ filter (\<lambda>x. x \<noteq> None) (map psrf new)"
    by auto
  have "length new \<le> nat xNum * M" using ln by simp
  also have "\<dots> \<le> nat xNum * (6 * nat yNum)" using M6 by simp
  finally have ln': "length new \<le> nat xNum * (6 * nat yNum)" .
  have all': "\<forall>p\<in>set new. pcol p < nat xNum \<and> psite p = Fit"
    using all by simp
  have tp': "\<forall>i<nat xNum. col_top i (calls s) = mh"
    using tp top by auto
  from st inv cnt mx pv c ln' all' tp' fr show ?thesis by blast
qed

lemma stack_rows_no_columns:
  assumes "xNum \<le> 0"
  shows "stack_rows xNum yNum s = Inr s"
proof -
  from assms have row: "stack_row xNum t = Inr t" for t
    by (simp add: stack_row_def py_range_def)
  have "for_each (\<lambda>n. stack_row xNum) ns s = Inr s" for ns
    by (induction ns) (simp_all add: row)
  then show ?thesis by (simp add: stack_rows_def)
qed

lemma pav_no_columns:
  assumes "xNum \<le> 0"
  shows "pavPattern xNum yNum r ok layers = Inl ValueError"
  using assms
  by (simp add: pavPattern_def stack_rows_no_columns close_gaps_def init_state_def py_range_def)

lemma pav_runE:
  assumes "0 < xNum"
  obtains s1 s max_height new where
    "stack_rows xNum yNum (init_state xNum r ok layers) = Inr s1"
    and "stack_inv (nat xNum) s1" and "length (calls s1) = nat yNum * nat xNum"
    and "py_max (y_bases s1) = Inr max_height"
    and "pavPattern xNum yNum r ok layers = Inr s"
    and "calls s = calls s1 @ new" and "length new \<le> nat xNum * (6 * nat yNum)"
    and "\<forall>p\<in>set new. pcol p < nat xNum \<and> psite p = Fit"
    and "\<forall>i<nat xNum. col_top i (calls s) = max_height"
    and "y_bases s = y_bases s1" and "existing_layers s = existing_layers s1"
    and "srfs s = srfs s1 @ filter (\<lambda>x. x \<noteq> None) (map psrf new)"
  using pav_run [OF assms, of yNum r ok layers]
  by (elim exE conjE) (rule that; assumption)

lemma for_each_map: "for_each g (map h xs) s = for_each (\<lambda>x. g (h x)) xs s"
  by (induction xs arbitrary: s) (simp_all split: sum.splits)

lemma for_each_product:
  "for_each (\<lambda>n. for_each f xs) ns s = for_each (\<lambda>(n, i). f i) (List.product ns xs) s"
proof (induction ns arbitrary: s)
  case Nil
  then show ?case by simp
next
  case (Cons n ns)
  then show ?case
    by (simp add: for_each_append for_each_map split: sum.splits)
qed

lemma contiguous_from_snoc:
  "contiguous_from y (ps @ [p]) \<longleftrightarrow>
     contiguous_from y ps \<and> py0 p = fold (\<lambda>q t. py1 q) ps y"
  by (induction ps arbitrary: y) auto

lemma col_top_filter: "col_top i ps = fold (\<lambda>q t. py1 q) (filter (\<lambda>p. pcol p = i) ps) 0"
proof (induction ps rule: rev_induct)
  case Nil
  then show ?case by (simp add: col_top_Nil)
next
  case (snoc p ps)
  then show ?case by (simp add: col_top_snoc)
qed

lemma stack_cell_contiguous:
  assumes "stack_inv x s" and "stack_cell i s = Inr s'" and "i < x"
    and "\<forall>j. contiguous_from 0 (filter (\<lambda>p. pcol p = j) (calls s))"
  shows "\<forall>j. contiguous_from 0 (filter (\<lambda>p. pcol p = j) (calls s'))"
proof
  fix j
  from stack_cell_Inr [OF assms(2)] obtain k where
    c: "calls s' = calls s @ [\<lparr>pcol = i, py0 = y_bases s ! i,
        py1 = y_bases s ! i + of_int k / 2,
        psrf = (if srf_ok s (length (calls s)) then Some (length (calls s)) else None),
        player = (if srf_ok s (length (calls s)) then Some (layer_of k) else None),
        psite = Stacked\<rparr>]"
    by blast
  from assms(1,3) have top: "col_top i (calls s) = y_bases s ! i"
    by (simp add: stack_inv_def)
  from assms(4) have old: "contiguous_from 0 (filter (\<lambda>p. pcol p = j) (calls s))" ..
  show "contiguous_from 0 (filter (\<lambda>p. pcol p = j) (calls s'))"
  proof (cases "j = i")
    case True
    with old top show ?thesis
      by (simp add: c contiguous_from_snoc col_top_filter)
  next
    case False
    with old show ?thesis by (simp add: c)
  qed
qed

lemma stack_rows_contiguous:
  assumes "stack_rows xNum yNum (init_state xNum rn ok layers) = Inr t"
  shows "stack_inv (nat xNum) t \<and> (\<forall>j. contiguous_from 0 (filter (\<lambda>p. pcol p = j) (calls t)))"
proof -
  let ?P = "\<lambda>t. stack_inv (nat xNum) t \<and>
      (\<forall>j. contiguous_from 0 (filter (\<lambda>p. pcol p = j) (calls t)))"
  have cell: "?P u'" if "i \<in> set (py_range xNum)" "?P u" "stack_cell i u = Inr u'" for i u u'
  proof -
    from that(1) have "i < nat xNum" by (simp add: py_range_def)
    with that(2,3) stack_cell_inv [of "nat xNum" u i u']
      stack_cell_contiguous [of "nat xNum" u i u']
    show ?thesis by blast
  qed
  have row: "?P u'" if "?P u" "stack_row xNum u = Inr u'" for u u'
    using that(2) unfolding stack_row_def
    by (rule for_each_invariant [where P = ?P]) (use that(1) cell in blast)+
  have init: "?P (init_state xNum rn ok layers)"
    using stack_inv_init [of xNum rn ok layers] by (simp add: init_state_def)
  from assms show ?thesis
    unfolding stack_rows_def
    by (rule for_each_invariant [where P = ?P]) (use init row in blast)+
qed

lemma stack_cell_registry:
  assumes "stack_cell i s = Inr s'"
    and "set (existing_layers s) \<subseteq> fst ` set (doc_layers s)"
    and "distinct (existing_layers s)"
  shows "set (existing_layers s') \<subseteq> fst ` set (doc_layers s') \<and> distinct (existing_layers s')"
proof -
  from stack_cell_Inr [OF assms(1)] obtain k where
    e: "existing_layers s' = (if IsLayer (layer_of k) s \<and> layer_of k \<in> set (existing_layers s)
         then existing_layers s else existing_layers s @ [layer_of k])"
    and d: "fst ` set (doc_layers s') = insert (layer_of k) (fst ` set (doc_layers s))"
    by blast
  from assms(2) have "layer_of k \<in> set (existing_layers s) \<Longrightarrow> IsLayer (layer_of k) s"
    by (auto simp: IsLayer_def)
  with e have e': "existing_layers s' = (if layer_of k \<in> set (existing_layers s)
         then existing_layers s else existing_layers s @ [layer_of k])"
    by auto
  from assms(2,3) show ?thesis
    unfolding d e' by auto
qed

lemma stack_rows_registry:
  assumes "stack_rows xNum yNum (init_state xNum rn ok layers) = Inr t"
  shows "set (existing_layers t) \<subseteq> fst ` set (doc_layers t) \<and> distinct (existing_layers t)"
proof -
  let ?Q = "\<lambda>t. set (existing_layers t) \<subseteq> fst ` set (doc_layers t) \<and> distinct (existing_layers t)"
  have cell: "?Q u'" if "?Q u" "stack_cell i u = Inr u'" for i u u'
    using stack_cell_registry [OF that(2)] that(1) by blast
  have row: "?Q u'" if "?Q u" "stack_row xNum u = Inr u'" for u u'
    using that(2) unfolding stack_row_def
    by (rule for_each_invariant [where P = ?Q]) (use that(1) cell in blast)+
  have init: "?Q (init_state xNum rn ok layers)"
    by (simp add: init_state_def)
  from assms show ?thesis
    unfolding stack_rows_def
    by (rule for_each_invariant [where P = ?Q]) (use init row in blast)+
qed

lemma stack_cell_step:
  assumes "stack_cell i s = Inr s'"
    and "set (existing_layers s) \<subseteq> fst ` set (doc_layers s)"
  shows "\<exists>bucket_index r.
           randint 1 num_buckets s = Inr (bucket_index, s\<lparr>rpos := Suc (rpos s)\<rparr>) \<and>
           1 \<le> bucket_index \<and> bucket_index \<le> num_buckets \<and>
           py_lookup bucket_heights bucket_index = Inr r \<and>
           calls s' = calls s @ [\<lparr>pcol = i, py0 = y_bases s ! i, py1 = y_bases s ! i + r,
              psrf = (if srf_ok s (length (calls s)) then Some (length (calls s)) else None),
              player = (if srf_ok s (length (calls s)) then Some (layer_of bucket_index) else None),
              psite = Stacked\<rparr>] \<and>
           srfs s' = srfs s @ [if srf_ok s (length (calls s)) then Some (length (calls s)) else None] \<and>
           y_bases s' = (y_bases s)[i := y_bases s ! i + r] \<and>
           existing_layers s' = (if layer_of bucket_index \<in> set (existing_layers s)
               then existing_layers s else existing_layers s @ [layer_of bucket_index])"
proof -
  from stack_cell_Inr [OF assms(1)] obtain k where
    r: "randint 1 num_buckets s = Inr (k, s\<lparr>rpos := Suc (rpos s)\<rparr>)"
    and k: "1 \<le> k" "k \<le> 6"
    and yb: "y_bases s' = (y_bases s)[i := y_bases s ! i + of_int k / 2]"
    and cs: "calls s' = calls s @ [\<lparr>pcol = i, py0 = y_bases s ! i,
        py1 = y_bases s ! i + of_int k / 2,
        psrf = (if srf_ok s (length (calls s)) then Some (length (calls s)) else None),
        player = (if srf_ok s (length (calls s)) then Some (layer_of k) else None),
        psite = Stacked\<rparr>]"
    and sr: "srfs s' = srfs s @ [if srf_ok s (length (calls s)) then Some (length (calls s)) else None]"
    and e: "existing_layers s' = (if IsLayer (layer_of k) s \<and> layer_of k \<in> set (existing_layers s)
         then existing_layers s else existing_layers s @ [layer_of k])"
    by blast
  have look: "py_lookup bucket_heights k = Inr (of_int k / 2)"
    using k by (rule py_lookup_bucket)
  from assms(2) have "layer_of k \<in> set (existing_layers s) \<Longrightarrow> IsLayer (layer_of k) s"
    by (auto simp: IsLayer_def)
  with e have e': "existing_layers s' = (if layer_of k \<in> set (existing_layers s)
         then existing_layers s else existing_layers s @ [layer_of k])"
    by auto
  from k have k6: "k \<le> num_buckets" by (simp add: num_buckets_eq)
  show ?thesis
    by (rule exI [of _ k], rule exI [of _ "of_int k / 2"])
      (intro conjI r k(1) k6 look cs sr yb e')
qed

lemma visits_length: "length (visits xNum yNum) = nat yNum * nat xNum"
  by (simp add: visits_def py_range_def)

lemma visits_nth:
  assumes "m < length (visits xNum yNum)"
  shows "visits xNum yNum ! m = (m div nat xNum, m mod nat xNum)"
proof -
  from assms have m: "m < nat yNum * nat xNum" by (simp add: visits_length)
  then have x: "0 < nat xNum" by (cases "nat xNum") simp_all
  from m have d: "m div nat xNum < nat yNum"
    by (simp add: less_mult_imp_div_less)
  from x have r: "m mod nat xNum < nat xNum" by simp
  from m have "List.product [0..<nat yNum] [0..<nat xNum] ! m =
      ([0..<nat yNum] ! (m div length [0..<nat xNum]), [0..<nat xNum] ! (m mod length [0..<nat xNum]))"
    by (intro product_nth) simp
  with d r show ?thesis
    by (simp add: visits_def py_range_def)
qed

lemma stack_rows_visits:
  "stack_rows xNum yNum s = for_each (\<lambda>(n, i). stack_cell i) (visits xNum yNum) s"
  unfolding stack_rows_def stack_row_def visits_def by (rule for_each_product)

lemma stack_visits_registry:
  assumes "for_each (\<lambda>(n::nat, i). stack_cell i) cs (init_state xNum rn ok layers) = Inr s"
  shows "set (existing_layers s) \<subseteq> fst ` set (doc_layers s) \<and> distinct (existing_layers s)"
proof -
  let ?Q = "\<lambda>t. set (existing_layers t) \<subseteq> fst ` set (doc_layers t) \<and> distinct (existing_layers t)"
  have cell: "?Q u'" if "?Q u" "(case x of (n, i) \<Rightarrow> stack_cell i) u = Inr u'"
    for x :: "nat \<times> nat" and u u'
  proof -
    from that(2) have "stack_cell (snd x) u = Inr u'" by (cases x) simp
    from stack_cell_registry [OF this] that(1) show ?thesis by blast
  qed
  have init: "?Q (init_state xNum rn ok layers)"
    by (simp add: init_state_def)
  from assms init show ?thesis
  proof (rule for_each_invariant [where P = ?Q])
    fix x :: "nat \<times> nat" and u u'
    assume "?Q u" and "(case x of (n, i) \<Rightarrow> stack_cell i) u = Inr u'"
    then show "?Q u'" by (rule cell)
  qed
qed

lemma stack_rows_split:
  assumes "stack_rows xNum yNum s0 = Inr t" and "m < length (visits xNum yNum)"
  shows "\<exists>s s'. for_each (\<lambda>(n, i). stack_cell i) (take m (visits xNum yNum)) s0 = Inr s \<and>
     stack_cell (m mod nat xNum) s = Inr s' \<and>
     for_each (\<lambda>(n, i). stack_cell i) (drop (Suc m) (visits xNum yNum)) s' = Inr t"
proof -
  let ?f = "\<lambda>(n, i). stack_cell i" and ?cs = "visits xNum yNum"
  from assms(2) have "?cs = take m ?cs @ ?cs ! m # drop (Suc m) ?cs"
    by (rule id_take_nth_drop)
  then have "for_each ?f ?cs s0 = for_each ?f (take m ?cs @ ?cs ! m # drop (Suc m) ?cs) s0"
    by simp
  with assms(1) have "for_each ?f (take m ?cs @ ?cs ! m # drop (Suc m) ?cs) s0 = Inr t"
    by (simp add: stack_rows_visits)
  then obtain s where a: "for_each ?f (take m ?cs) s0 = Inr s"
    and b: "for_each ?f (?cs ! m # drop (Suc m) ?cs) s = Inr t"
    unfolding for_each_append by (auto split: sum.splits)
  from b obtain s' where c: "?f (?cs ! m) s = Inr s'"
    and d: "for_each ?f (drop (Suc m) ?cs) s' = Inr t"
    by (auto split: sum.splits)
  from c have "stack_cell (m mod nat xNum) s = Inr s'"
    by (simp add: visits_nth [OF assms(2)])
  with a d show ?thesis by blast
qed

lemma while_gap_tagged:
  assumes "while_gap i max_height current_y s = Inr (cy', gap', s')"
  shows "\<exists>new. calls s' = calls s @ new \<and>
     (\<forall>p \<in> set new. (player p = None) = (psrf p = None))"
  using assms
proof (induction i max_height current_y s rule: while_gap.induct)
  case (1 i max_height current_y s)
  let ?gap = "max_height - current_y"
  show ?case
  proof (cases "1 / 1000 < ?gap")
    case False
    with "1.prems" have "s' = s"
      by (simp add: while_gap.simps Let_def)
    then show ?thesis by simp
  next
    case gap: True
    show ?thesis
    proof (cases "valid_fits_of ?gap \<noteq> []")
      case False
      with gap "1.prems" obtain s1 where fb: "fallback_step i ?gap current_y s = Inr s1"
        and res: "s' = s1"
        by (auto simp: while_gap.simps Let_def split: sum.splits)
      from fallback_step_Inr [OF fb] obtain tag where
        c: "calls s1 = calls s @ [\<lparr>pcol = i, py0 = current_y, py1 = current_y + ?gap,
          psrf = (if srf_ok s (length (calls s)) then Some (length (calls s)) else None),
          player = tag, psite = Fallback\<rparr>]"
        and tag: "(tag = None) = (\<not> srf_ok s (length (calls s)))"
        by blast
      from c tag res show ?thesis by simp
    next
      case fits: True
      with gap "1.prems" obtain y1 s1 where
        f: "fit_step i ?gap current_y (valid_fits_of ?gap) s = Inr (y1, s1)"
        and w: "while_gap i max_height y1 s1 = Inr (cy', gap', s')"
        by (auto simp: while_gap.simps Let_def split: sum.splits)
      note IH = "1.IH" [OF refl gap fits f refl w]
      from fit_step_Inr [OF f] obtain k h tag where
        c1: "calls s1 = calls s @ [\<lparr>pcol = i, py0 = current_y, py1 = current_y + h,
          psrf = (if srf_ok s (length (calls s)) then Some (length (calls s)) else None),
          player = tag, psite = Fit\<rparr>]"
        and tag: "(tag = None) = (\<not> srf_ok s (length (calls s)))"
        by blast
      from IH obtain new where n: "calls s' = calls s1 @ new"
        and all: "\<forall>p \<in> set new. (player p = None) = (psrf p = None)"
        by blast
      let ?p = "\<lparr>pcol = i, py0 = current_y, py1 = current_y + h,
          psrf = (if srf_ok s (length (calls s)) then Some (length (calls s)) else None),
          player = tag, psite = Fit\<rparr>"
      have c: "calls s' = calls s @ (?p # new)"
        using n c1 by simp
      have all': "\<forall>p \<in> set (?p # new). (player p = None) = (psrf p = None)"
        using all tag by simp
      show ?thesis
        by (rule exI [of _ "?p # new"]) (intro conjI c all')
    qed
  qed
qed

lemma fill_column_tagged:
  assumes "fill_column max_height i s = Inr s'"
  shows "\<exists>new. calls s' = calls s @ new \<and>
     (\<forall>p \<in> set new. (player p = None) = (psrf p = None))"
proof -
  from assms have i: "i < length (y_bases s)"
    by (auto simp: fill_column_def py_get_def split: if_splits)
  with assms obtain cy gap s1 where w: "while_gap i max_height (y_bases s ! i) s = Inr (cy, gap, s1)"
    and g: "residual_guard i gap cy s1 = Inr s'"
    by (auto simp: fill_column_def py_get_def split: sum.splits)
  from while_gap_tagged [OF w] obtain new where n: "calls s1 = calls s @ new"
    and all: "\<forall>p \<in> set new. (player p = None) = (psrf p = None)"
    by blast
  show ?thesis
  proof (cases "1 / 1000 \<le> gap")
    case False
    then have "s' = s1" using g by (simp add: residual_guard_def)
    with n all show ?thesis by blast
  next
    case True
    from residual_guard_Inr [OF g True] obtain tag where
      c: "calls s' = calls s1 @ [\<lparr>pcol = i, py0 = cy, py1 = cy + gap,
        psrf = (if srf_ok s1 (length (calls s1)) then Some (length (calls s1)) else None),
        player = tag, psite = Residual\<rparr>]"
      and tag: "(tag = None) = (\<not> srf_ok s1 (length (calls s1)))"
      by blast
    let ?p = "\<lparr>pcol = i, py0 = cy, py1 = cy + gap,
        psrf = (if srf_ok s1 (length (calls s1)) then Some (length (calls s1)) else None),
        player = tag, psite = Residual\<rparr>"
    have c': "calls s' = calls s @ (new @ [?p])" using c n by simp
    have all': "\<forall>p \<in> set (new @ [?p]). (player p = None) = (psrf p = None)"
      using all tag by simp
    show ?thesis
      by (rule exI [of _ "new @ [?p]"]) (intro conjI c' all')
  qed
qed

lemma close_gaps_tagged:
  assumes "close_gaps xNum s = Inr s'"
  shows "\<forall>p \<in> set (drop (length (calls s)) (calls s')). (player p = None) = (psrf p = None)"
proof -
  from assms obtain mh where f: "for_each (fill_column mh) (py_range xNum) s = Inr s'"
    by (auto simp: close_gaps_def split: sum.splits)
  let ?P = "\<lambda>t. \<exists>new. calls t = calls s @ new \<and>
     (\<forall>p \<in> set new. (player p = None) = (psrf p = None))"
  have init: "?P s" by simp
  have step: "?P t'" if "?P t" and "fill_column mh x t = Inr t'" for x t t'
  proof -
    from that(1) obtain new1 where n1: "calls t = calls s @ new1"
      and a1: "\<forall>p \<in> set new1. (player p = None) = (psrf p = None)" by blast
    from fill_column_tagged [OF that(2)] obtain new2 where n2: "calls t' = calls t @ new2"
      and a2: "\<forall>p \<in> set new2. (player p = None) = (psrf p = None)" by blast
    have c: "calls t' = calls s @ (new1 @ new2)" using n1 n2 by simp
    have a: "\<forall>p \<in> set (new1 @ new2). (player p = None) = (psrf p = None)"
      using a1 a2 by auto
    show ?thesis
      by (rule exI [of _ "new1 @ new2"]) (intro conjI c a)
  qed
  from f init have "?P s'"
  proof (rule for_each_invariant [where P = ?P])
    fix x t t'
    assume "?P t" and "fill_column mh x t = Inr t'"
    then show "?P t'" by (rule step)
  qed
  then show ?thesis by auto
qed

subsection \<open>The fallback branch and the guard after the loop\<close>

text \<open>
  Two facts about the fallback branch (lines 107 to 119) and the guard after the loop
  (lines 122 to 132). The first: the fallback branch leaves the loop without assigning
  \<^verbatim>\<open>gap\<close> or \<^verbatim>\<open>current_y\<close>, so the guard of line 122 still sees the gap. If the
  gap closer is entered with column 0 at 2.75 below a top of 3.0 and a host that creates
  every surface, two calls are made, from line 115 and from line 129, both for the span
  from 2.75 to 3.0, and both surfaces are returned.
\<close>

lemma fallback_then_guard:
  "map_sum id (\<lambda>s'. (map (\<lambda>p. (psite p, pcol p, py0 p, py1 p)) (calls s'), srfs s'))
     (fill_column 3 0
        \<lparr>srfs = [], y_bases = [11 / 4, 3], existing_layers = [''Height_Group_1''],
         rnd = (\<lambda>n. 0), rpos = 0, srf_ok = (\<lambda>n. True), doc_layers = [], calls = []\<rparr>)
   = Inr ([(Fallback, 0, 11 / 4, 3), (Residual, 0, 11 / 4, 3)], [Some 0, Some 1])"
  by (simp add: fill_column_def py_get_def while_gap.simps valid_fits_of_def bucket_heights_eq
      fallback_step_def residual_guard_def random_choice_def AddSrfPt_def ObjectLayer_def Let_def)

text \<open>
  The second: no run of \<^verbatim>\<open>pavPattern\<close> gets there. The running heights after stacking
  are multiples of one half, so is every gap, and a gap above 0.001 always has a catalog
  fit: every call of a run comes from the stacker or from the catalog-fit branch.
\<close>

lemma run_emits_no_filler:
  assumes "pavPattern xNum yNum r ok layers = Inr s"
  shows "\<forall>p \<in> set (calls s). psite p = Stacked \<or> psite p = Fit"
proof -
  have "0 < xNum"
  proof (rule ccontr)
    assume "\<not> 0 < xNum"
    then have "pavPattern xNum yNum r ok layers = Inl ValueError"
      by (intro pav_no_columns) simp
    with assms show False by simp
  qed
  then show ?thesis
  proof (rule pav_runE [of xNum yNum r ok layers])
    fix s1 s' mh new
    assume inv: "stack_inv (nat xNum) s1" and p: "pavPattern xNum yNum r ok layers = Inr s'"
      and c: "calls s' = calls s1 @ new"
      and n: "\<forall>p\<in>set new. pcol p < nat xNum \<and> psite p = Fit"
    from p assms have "s' = s" by simp
    moreover from inv have "\<forall>p\<in>set (calls s1). psite p = Stacked"
      by (simp add: stack_inv_def)
    ultimately show ?thesis using c n by auto
  qed
qed

subsection \<open>The size catalog\<close>



subsection \<open>The tag of a catalog panel in the gap loop\<close>

text \<open>
  Claim C8: in the catalog-fit branch of the gap loop, when the chosen height equals the
  remaining gap within 1e-6 the panel is put on a layer drawn from the whole registry
  \<^verbatim>\<open>existing_layers\<close>; otherwise it is put on the layer of the chosen bucket index. It
  is not so when the host creates no surface: lines 95 to 101 are under \<^verbatim>\<open>if srf:\<close>.
  In the run below the two stacked surfaces are created and the surface of the gap
  closer is not. Column 0 stands at 0.5 under a top of 3.0, the gap loop chooses bucket
  5, whose height 2.5 is the whole gap: the panel gets no layer, and no draw is made
  from the registry (nine draws in all: two buckets, six colour values, one fit).
\<close>

theorem final_tile_untagged_without_surface:
  "map_sum id (\<lambda>s. (existing_layers s, rpos s,
       map (\<lambda>p. (psite p, pcol p, py0 p, py1 p, psrf p, player p)) (calls s)))
     (pavPattern 2 1 (\<lambda>n. if n = 4 then 5 else if n = 8 then 4 else 0) (\<lambda>n. n < 2) [])
   = Inr ([''Height_Group_1'', ''Height_Group_6''], 9,
          [(Stacked, 0, 0, 1 / 2, Some 0, Some ''Height_Group_1''),
           (Stacked, 1, 0, 3, Some 1, Some ''Height_Group_6''),
           (Fit, 0, 1 / 2, 3, None, None)])"
  by (simp add: pavPattern_def init_state_def stack_rows_def stack_row_def py_range_def upt_rec
      stack_cell_def randint_def num_buckets_eq py_lookup_def bucket_heights_eq
      layer_of_1 layer_of_6
      register_layer_def IsLayer_def AddLayer_def py_get_def
      close_gaps_def fill_column_def while_gap.simps valid_fits_of_def
      fit_step_def fallback_step_def residual_guard_def random_choice_def
      AddSrfPt_def ObjectLayer_def Let_def)

text \<open>
  What holds, for the catalog-fit branch entered in any state, with \<open>(bucket_index, h)\<close>
  the fit that line 82 chooses. When the host creates the surface, the panel is put on a
  layer that \<^verbatim>\<open>random.choice\<close> draws from the whole registry if the chosen height equals
  the gap within 1e-6, and on the layer of the chosen bucket index otherwise. When the
  host creates no surface, the panel gets no layer and nothing is drawn from the
  registry. That a draw is uniform is a property of the random source, which the model
  takes as given.
\<close>

theorem fit_step_tag:
  assumes "random_choice valid_fits s = Inr ((bucket_index, h), s1)"
    and "fit_step i gap current_y valid_fits s = Inr (y1, s')"
  shows "if srf_ok s (length (calls s))
     then \<exists>layer_name.
       calls s' = calls s @ [\<lparr>pcol = i, py0 = current_y, py1 = current_y + h,
          psrf = Some (length (calls s)), player = Some layer_name, psite = Fit\<rparr>] \<and>
       (if \<bar>gap - h\<bar> < 1 / 1000000
        then \<exists>s2. random_choice (existing_layers s)
                    (snd (AddSrfPt Fit i current_y (current_y + h) s1)) = Inr (layer_name, s2)
        else layer_name = layer_of bucket_index)
     else calls s' = calls s @ [\<lparr>pcol = i, py0 = current_y, py1 = current_y + h,
          psrf = None, player = None, psite = Fit\<rparr>] \<and>
       rpos s' = Suc (rpos s)"
proof (cases "srf_ok s (length (calls s))")
  case False
  note r = random_choice_Inr [OF assms(1)]
  from assms r False have "calls s' = calls s @ [\<lparr>pcol = i, py0 = current_y, py1 = current_y + h,
          psrf = None, player = None, psite = Fit\<rparr>] \<and> rpos s' = Suc (rpos s)"
    by (auto simp: fit_step_def AddSrfPt_def Let_def)
  with False show ?thesis by simp
next
  case ok: True
  note r = random_choice_Inr [OF assms(1)]
  have "\<exists>layer_name.
       calls s' = calls s @ [\<lparr>pcol = i, py0 = current_y, py1 = current_y + h,
          psrf = Some (length (calls s)), player = Some layer_name, psite = Fit\<rparr>] \<and>
       (if \<bar>gap - h\<bar> < 1 / 1000000
        then \<exists>s2. random_choice (existing_layers s)
                    (snd (AddSrfPt Fit i current_y (current_y + h) s1)) = Inr (layer_name, s2)
        else layer_name = layer_of bucket_index)"
  proof (cases "\<bar>gap - h\<bar> < 1 / 1000000")
    case False
    with assms r ok show ?thesis
      by (auto simp: fit_step_def AddSrfPt_def ObjectLayer_def Let_def)
  next
    case True
    with assms r ok obtain l s3 where
      c2: "random_choice (existing_layers s)
             (snd (AddSrfPt Fit i current_y (current_y + h) s1)) = Inr (l, s3)"
      by (auto simp: fit_step_def AddSrfPt_def Let_def split: sum.splits)
    note r2 = random_choice_Inr [OF c2]
    from assms r ok True c2 r2 show ?thesis
      by (intro exI [of _ l]) (auto simp: fit_step_def AddSrfPt_def ObjectLayer_def Let_def)
  qed
  with ok show ?thesis by simp
qed

theorem fit_step_tag_witness:
  "random_choice [(1::int, 1 / 2 :: rat), (2, 1)]
     \<lparr>srfs = [], y_bases = [2, 3], existing_layers = [''Height_Group_4'', ''Height_Group_6''],
      rnd = (\<lambda>n. n), rpos = 0, srf_ok = (\<lambda>n. True), doc_layers = [], calls = []\<rparr>
   = Inr ((1, 1 / 2),
     \<lparr>srfs = [], y_bases = [2, 3], existing_layers = [''Height_Group_4'', ''Height_Group_6''],
      rnd = (\<lambda>n. n), rpos = 1, srf_ok = (\<lambda>n. True), doc_layers = [], calls = []\<rparr>) \<and>
   map_sum id (\<lambda>(y1, s'). (y1, map player (calls s')))
     (fit_step 0 1 2 [(1, 1 / 2), (2, 1)]
       \<lparr>srfs = [], y_bases = [2, 3], existing_layers = [''Height_Group_4'', ''Height_Group_6''],
        rnd = (\<lambda>n. n), rpos = 0, srf_ok = (\<lambda>n. True), doc_layers = [], calls = []\<rparr>)
   = Inr (5 / 2, [Some ''Height_Group_1'']) \<and>
   map_sum id (\<lambda>(y1, s'). (y1, map player (calls s')))
     (fit_step 0 (1 / 2) (5 / 2) [(1, 1 / 2)]
       \<lparr>srfs = [], y_bases = [2, 3], existing_layers = [''Height_Group_4'', ''Height_Group_6''],
        rnd = (\<lambda>n. n), rpos = 0, srf_ok = (\<lambda>n. True), doc_layers = [], calls = []\<rparr>)
   = Inr (3, [Some ''Height_Group_6'']) \<and>
   map_sum id (\<lambda>(y1, s'). (y1, map player (calls s'), rpos s'))
     (fit_step 0 (1 / 2) (5 / 2) [(1, 1 / 2)]
       \<lparr>srfs = [], y_bases = [2, 3], existing_layers = [''Height_Group_4'', ''Height_Group_6''],
        rnd = (\<lambda>n. n), rpos = 0, srf_ok = (\<lambda>n. False), doc_layers = [], calls = []\<rparr>)
   = Inr (3, [None], 1)"
proof -
  let ?s = "\<lparr>srfs = [], y_bases = [2, 3], existing_layers = [''Height_Group_4'', ''Height_Group_6''],
      rnd = (\<lambda>n. n), rpos = 0, srf_ok = (\<lambda>n. True), doc_layers = [], calls = []\<rparr>"
  let ?s1 = "?s\<lparr>rpos := 1\<rparr>"
  let ?u = "\<lparr>srfs = [], y_bases = [2, 3], existing_layers = [''Height_Group_4'', ''Height_Group_6''],
      rnd = (\<lambda>n. n), rpos = 0, srf_ok = (\<lambda>n. False), doc_layers = [], calls = []\<rparr>"
  let ?u1 = "?u\<lparr>rpos := 1\<rparr>"
  have c1: "random_choice [(1::int, 1 / 2 :: rat), (2, 1)] ?s = Inr ((1, 1 / 2), ?s1)"
    by (simp add: random_choice_def)
  have "\<exists>s'. fit_step 0 1 2 [(1, 1 / 2), (2, 1)] ?s = Inr (5 / 2, s')"
    by (simp add: fit_step_def random_choice_def AddSrfPt_def ObjectLayer_def Let_def)
  then obtain s' where f1: "fit_step 0 1 2 [(1, 1 / 2), (2, 1)] ?s = Inr (5 / 2, s')" ..
  from fit_step_tag [OF c1 f1] have p1: "map player (calls s') = [Some ''Height_Group_1'']"
    by (auto simp: layer_of_1)
  have c2: "random_choice [(1::int, 1 / 2 :: rat)] ?s = Inr ((1, 1 / 2), ?s1)"
    by (simp add: random_choice_def)
  have "\<exists>s'. fit_step 0 (1 / 2) (5 / 2) [(1, 1 / 2)] ?s = Inr (3, s')"
    by (simp add: fit_step_def random_choice_def AddSrfPt_def ObjectLayer_def Let_def)
  then obtain s'' where f2: "fit_step 0 (1 / 2) (5 / 2) [(1, 1 / 2)] ?s = Inr (3, s'')" ..
  from fit_step_tag [OF c2 f2] have p2: "map player (calls s'') = [Some ''Height_Group_6'']"
    by (auto simp: random_choice_def AddSrfPt_def Let_def)
  have c3: "random_choice [(1::int, 1 / 2 :: rat)] ?u = Inr ((1, 1 / 2), ?u1)"
    by (simp add: random_choice_def)
  have "\<exists>s'. fit_step 0 (1 / 2) (5 / 2) [(1, 1 / 2)] ?u = Inr (3, s')"
    by (simp add: fit_step_def random_choice_def AddSrfPt_def ObjectLayer_def Let_def)
  then obtain u' where f3: "fit_step 0 (1 / 2) (5 / 2) [(1, 1 / 2)] ?u = Inr (3, u')" ..
  from fit_step_tag [OF c3 f3] have p3: "map player (calls u') = [None]" "rpos u' = 1"
    by simp_all
  from c1 f1 p1 f2 p2 f3 p3 show ?thesis
    by simp
qed

subsection \<open>The height of a filler panel\<close>

text \<open>
  Claim C9: every filler panel of the gap closer, that is every panel made by the fallback
  branch or by the guard after the loop, is strictly lower than the smallest catalog
  height. It holds for the gap closer started in any state.
\<close>

theorem filler_below_catalog:
  assumes "close_gaps xNum s = Inr s'"
    and "p \<in> set (drop (length (calls s)) (calls s'))"
    and "psite p = Fallback \<or> psite p = Residual"
  shows "py1 p - py0 p < Min (snd ` set bucket_heights)"
proof -
  from close_gaps_Inr [OF assms(1)] obtain max_height new where "calls s' = calls s @ new"
    and "\<forall>p \<in> set new. pcol p < nat xNum \<and> closer_panel max_height (existing_layers s) p"
    by blast
  with assms(2) have "closer_panel max_height (existing_layers s) p"
    by simp
  with assms(3) have "py1 p - py0 p < 1 / 2"
    by (auto simp: closer_panel_def)
  then show ?thesis
    by (simp only: min_catalog_height)
qed

theorem filler_below_catalog_witness:
  "map_sum id (\<lambda>s'. map (\<lambda>p. (psite p, py1 p - py0 p)) (calls s'))
     (close_gaps 2
        \<lparr>srfs = [], y_bases = [11 / 4, 3], existing_layers = [''Height_Group_1''],
         rnd = (\<lambda>n. 0), rpos = 0, srf_ok = (\<lambda>n. True), doc_layers = [], calls = []\<rparr>)
   = Inr [(Fallback, 1 / 4), (Residual, 1 / 4)] \<and>
   (1 / 4 :: rat) < Min (snd ` set bucket_heights)"
proof -
  let ?s = "\<lparr>srfs = [], y_bases = [11 / 4, 3], existing_layers = [''Height_Group_1''],
         rnd = (\<lambda>n. 0), rpos = 0, srf_ok = (\<lambda>n. True), doc_layers = [], calls = []\<rparr>"
  let ?p = "\<lparr>pcol = 0, py0 = 11 / 4, py1 = 3, psrf = Some 0,
         player = Some ''Height_Group_1'', psite = Fallback\<rparr>"
  have "\<exists>s'. close_gaps 2 ?s = Inr s' \<and> calls s' = [?p, ?p\<lparr>psrf := Some 1, psite := Residual\<rparr>]"
    by (simp add: close_gaps_def py_range_def upt_rec fill_column_def py_get_def while_gap.simps
        valid_fits_of_def bucket_heights_eq fallback_step_def residual_guard_def random_choice_def
        AddSrfPt_def ObjectLayer_def Let_def)
  then obtain s' where c: "close_gaps 2 ?s = Inr s'"
    and cs: "calls s' = [?p, ?p\<lparr>psrf := Some 1, psite := Residual\<rparr>]"
    by blast
  have "?p \<in> set (drop (length (calls ?s)) (calls s'))"
    by (simp add: cs)
  from filler_below_catalog [OF c this] have "(1 / 4 :: rat) < Min (snd ` set bucket_heights)"
    by simp
  with c cs show ?thesis
    by simp
qed

subsection \<open>The registry during gap closing\<close>

text \<open>
  Claim C4: during gap closing the registry never grows, and every panel of the gap closer
  is put on a layer that is in the registry. The second half fails. In the run below
  column 0 draws bucket 1 and column 1 draws bucket 6, so the registry holds the layers of
  the buckets 1 and 6; the gap closer then fits bucket 2 into column 0, not as its last
  panel, and puts it on \<^verbatim>\<open>Height_Group_2\<close>, which is not in the registry.
\<close>

theorem gap_closer_tag_outside_registry:
  "map_sum id (\<lambda>s. (existing_layers s, map (\<lambda>p. (psite p, pcol p, py0 p, py1 p, player p)) (calls s)))
     (pavPattern 2 1 (\<lambda>n. if n = 4 then 5 else if n = 8 then 1 else if n = 9 then 2 else 0)
        (\<lambda>n. True) [])
   = Inr ([''Height_Group_1'', ''Height_Group_6''],
          [(Stacked, 0, 0, 1 / 2, Some ''Height_Group_1''),
           (Stacked, 1, 0, 3, Some ''Height_Group_6''),
           (Fit, 0, 1 / 2, 3 / 2, Some ''Height_Group_2''),
           (Fit, 0, 3 / 2, 3, Some ''Height_Group_1'')])"
  by (simp add: pavPattern_def init_state_def stack_rows_def stack_row_def py_range_def upt_rec
      stack_cell_def randint_def num_buckets_eq py_lookup_def bucket_heights_eq
      layer_of_1 layer_of_2 layer_of_3 layer_of_6
      register_layer_def IsLayer_def AddLayer_def py_get_def
      close_gaps_def fill_column_def while_gap.simps valid_fits_of_def
      fit_step_def fallback_step_def residual_guard_def random_choice_def
      AddSrfPt_def ObjectLayer_def Let_def)


text \<open>
  What holds: the gap closer leaves the registry as it is. A panel of the gap closer is
  given a layer exactly when the host has created its surface. Of the layers given: a catalog panel that does not end at the top (within 1e-6) is on the layer of
  its own bucket index, the bucket of the catalog that has the panel's height, in the
  registry or not; every other panel, that is a catalog panel that ends at the top and
  every filler, is on a layer of the registry.
\<close>

theorem gap_closer_registry:
  assumes "close_gaps xNum s = Inr s'" and "py_max (y_bases s) = Inr max_height"
  shows "existing_layers s' = existing_layers s \<and>
     (\<forall>p \<in> set (drop (length (calls s)) (calls s')).
        (player p = None) = (psrf p = None) \<and>
        (\<forall>l. player p = Some l \<longrightarrow>
          (if psite p = Fit \<and> \<not> \<bar>max_height - py1 p\<bar> < 1 / 1000000
           then \<exists>k. (k, py1 p - py0 p) \<in> set bucket_heights \<and> l = layer_of k
           else l \<in> set (existing_layers s))))"
proof -
  from close_gaps_Inr [OF assms(1)] assms(2) obtain new where c: "calls s' = calls s @ new"
    and a: "\<forall>p \<in> set new. pcol p < nat xNum \<and> closer_panel max_height (existing_layers s) p"
    and e: "existing_layers s' = existing_layers s"
    by auto
  from close_gaps_tagged [OF assms(1)] c
  have t: "\<forall>p \<in> set new. (player p = None) = (psrf p = None)"
    by simp
  have "\<forall>p \<in> set new. (player p = None) = (psrf p = None) \<and>
        (\<forall>l. player p = Some l \<longrightarrow>
          (if psite p = Fit \<and> \<not> \<bar>max_height - py1 p\<bar> < 1 / 1000000
           then \<exists>k. (k, py1 p - py0 p) \<in> set bucket_heights \<and> l = layer_of k
           else l \<in> set (existing_layers s)))"
  proof (intro ballI conjI allI impI)
    fix p assume "p \<in> set new"
    with t show "(player p = None) = (psrf p = None)" by blast
  next
    fix p l assume p: "p \<in> set new" and l: "player p = Some l"
    from a p have "closer_panel max_height (existing_layers s) p" by blast
    with l show "if psite p = Fit \<and> \<not> \<bar>max_height - py1 p\<bar> < 1 / 1000000
         then \<exists>k. (k, py1 p - py0 p) \<in> set bucket_heights \<and> l = layer_of k
         else l \<in> set (existing_layers s)"
      unfolding closer_panel_def by (cases "\<bar>max_height - py1 p\<bar> < 1 / 1000000") auto
  qed
  with c e show ?thesis by simp
qed

theorem gap_closer_registry_witness:
  "py_max [1 / 2, 3] = Inr 3 \<and>
   map_sum id (\<lambda>s'. (existing_layers s', map (\<lambda>p. (psite p, py0 p, py1 p, player p)) (calls s')))
     (close_gaps 2
        \<lparr>srfs = [], y_bases = [1 / 2, 3],
         existing_layers = [''Height_Group_1'', ''Height_Group_6''],
         rnd = (\<lambda>n. if n = 0 then 1 else if n = 1 then 2 else 0), rpos = 0,
         srf_ok = (\<lambda>n. True), doc_layers = [], calls = []\<rparr>)
   = Inr ([''Height_Group_1'', ''Height_Group_6''],
          [(Fit, 1 / 2, 3 / 2, Some ''Height_Group_2''), (Fit, 3 / 2, 3, Some ''Height_Group_1'')]) \<and>
   (\<exists>k. (k, 1) \<in> set bucket_heights \<and> ''Height_Group_2'' = layer_of k)"
proof -
  let ?s = "\<lparr>srfs = [], y_bases = [1 / 2, 3],
         existing_layers = [''Height_Group_1'', ''Height_Group_6''],
         rnd = (\<lambda>n. if n = 0 then 1 else if n = 1 then 2 else 0), rpos = 0,
         srf_ok = (\<lambda>n. True), doc_layers = [], calls = []\<rparr>"
  let ?p = "\<lparr>pcol = 0, py0 = 1 / 2, py1 = 3 / 2, psrf = Some 0,
         player = Some ''Height_Group_2'', psite = Fit\<rparr>"
  let ?q = "\<lparr>pcol = 0, py0 = 3 / 2, py1 = 3, psrf = Some 1,
         player = Some ''Height_Group_1'', psite = Fit\<rparr>"
  have m: "py_max (y_bases ?s) = Inr 3" by simp
  have e: "map_sum id calls (close_gaps 2 ?s) = Inr [?p, ?q]"
    by (simp add: close_gaps_def py_range_def upt_rec fill_column_def py_get_def while_gap.simps
        valid_fits_of_def bucket_heights_eq fit_step_def residual_guard_def random_choice_def
        layer_of_2 AddSrfPt_def ObjectLayer_def Let_def)
  then obtain s' where c: "close_gaps 2 ?s = Inr s'"
    by (cases "close_gaps 2 ?s") simp_all
  from e c have cs: "calls s' = [?p, ?q]"
    by simp
  note t = gap_closer_registry [OF c m]
  from t have reg: "existing_layers s' = [''Height_Group_1'', ''Height_Group_6'']"
    by simp
  from t have "\<forall>p \<in> set (drop (length (calls ?s)) (calls s')).
        (player p = None) = (psrf p = None) \<and>
        (\<forall>l. player p = Some l \<longrightarrow>
          (if psite p = Fit \<and> \<not> \<bar>3 - py1 p\<bar> < 1 / 1000000
           then \<exists>k. (k, py1 p - py0 p) \<in> set bucket_heights \<and> l = layer_of k
           else l \<in> set (existing_layers ?s)))"
    by (rule conjunct2)
  from this [THEN bspec, of ?p, THEN conjunct2, THEN spec, of "''Height_Group_2''"]
  have tag: "\<exists>k. (k, 1) \<in> set bucket_heights \<and> ''Height_Group_2'' = layer_of k"
    by (simp add: cs)
  from c cs reg tag show ?thesis by simp
qed

subsection \<open>Every column ends at the common top\<close>

text \<open>
  Claim C2: after the gap closer, the running height of every column equals the maximum
  of the running heights after stacking, within 1e-6. The running heights after stacking
  are \<^verbatim>\<open>y_bases\<close>, which the gap closer does not change; the height a column has reached
  at the end is the top of its last recorded panel. The two are equal, exactly.
\<close>

theorem columns_aligned:
  assumes "pavPattern xNum yNum r ok layers = Inr s"
    and "py_max (y_bases s) = Inr max_height"
    and "i < nat xNum"
  shows "col_top i (calls s) = max_height"
proof -
  have "0 < xNum"
  proof (rule ccontr)
    assume "\<not> 0 < xNum"
    then have "pavPattern xNum yNum r ok layers = Inl ValueError"
      by (intro pav_no_columns) simp
    with assms(1) show False by simp
  qed
  then show ?thesis
  proof (rule pav_runE [of xNum yNum r ok layers])
    fix s1 s' mh new
    assume m: "py_max (y_bases s1) = Inr mh" and p: "pavPattern xNum yNum r ok layers = Inr s'"
      and t: "\<forall>i<nat xNum. col_top i (calls s') = mh" and y: "y_bases s' = y_bases s1"
    from p assms(1) have "s' = s" by simp
    with m t y assms(2,3) show ?thesis by simp
  qed
qed

theorem columns_aligned_witness:
  "map_sum id (\<lambda>s. (y_bases s, py_max (y_bases s), col_top 0 (calls s), col_top 1 (calls s)))
     (pavPattern 2 1 (\<lambda>n. if n = 4 then 5 else if n = 8 then 1 else if n = 9 then 2 else 0)
        (\<lambda>n. True) [])
   = Inr ([1 / 2, 3], Inr 3, 3, 3)"
proof -
  let ?r = "\<lambda>n::nat. if n = 4 then 5 else if n = 8 then 1 else if n = 9 then 2 else (0::nat)"
  have e: "map_sum id y_bases (pavPattern 2 1 ?r (\<lambda>n. True) []) = Inr [1 / 2, 3]"
    by (simp add: pavPattern_def init_state_def stack_rows_def stack_row_def py_range_def upt_rec
      stack_cell_def randint_def num_buckets_eq py_lookup_def bucket_heights_eq
      register_layer_def IsLayer_def AddLayer_def py_get_def
      close_gaps_def fill_column_def while_gap.simps valid_fits_of_def
      fit_step_def fallback_step_def residual_guard_def random_choice_def
      AddSrfPt_def ObjectLayer_def Let_def)
  then obtain s where p: "pavPattern 2 1 ?r (\<lambda>n. True) [] = Inr s"
    by (cases "pavPattern 2 1 ?r (\<lambda>n. True) []") simp_all
  with e have y: "y_bases s = [1 / 2, 3]" by simp
  then have m: "py_max (y_bases s) = Inr 3" by simp
  have "col_top 0 (calls s) = 3" "col_top 1 (calls s) = 3"
    using columns_aligned [OF p m, of 0] columns_aligned [OF p m, of 1] by simp_all
  with p y m show ?thesis by simp
qed

subsection \<open>Failures of the run\<close>

text \<open>
  Claim C5: the run fails with an error of invalid configuration when the step is not
  positive, the maximum is below the base, or \<^verbatim>\<open>xNum\<close> or \<^verbatim>\<open>yNum\<close> is not a positive
  integer. It does not: with one column and \<^verbatim>\<open>yNum = 0\<close> the run returns the empty list,
  having made no call.
\<close>

theorem pavPattern_no_config_check:
  "map_sum id (\<lambda>s. (srfs s, calls s)) (pavPattern 1 0 (\<lambda>n. 0) (\<lambda>n. True) []) = Inr ([], [])"
  by (simp add: pavPattern_def init_state_def stack_rows_def py_range_def
      close_gaps_def fill_column_def py_get_def while_gap.simps residual_guard_def Let_def)

text \<open>
  What holds: the script checks nothing. Its catalog numbers are constants (step 0.5, base
  0.5, maximum 3.0). The run fails exactly when \<^verbatim>\<open>xNum\<close> is not positive, with the
  ValueError of \<^verbatim>\<open>max\<close> on the empty list of line 71; it never fails otherwise, whatever
  \<^verbatim>\<open>yNum\<close> is.
\<close>

theorem pavPattern_fails_iff:
  "pavPattern xNum yNum r ok layers = Inl e \<longleftrightarrow> xNum \<le> 0 \<and> e = ValueError"
proof (cases "0 < xNum")
  case True
  then show ?thesis
  proof (rule pav_runE [of xNum yNum r ok layers])
    fix s assume "pavPattern xNum yNum r ok layers = Inr s"
    with True show ?thesis by simp
  qed
next
  case False
  then have "pavPattern xNum yNum r ok layers = Inl ValueError"
    by (intro pav_no_columns) simp
  with False show ?thesis by auto
qed

theorem pavPattern_fails_iff_witness:
  "pavPattern 0 3 (\<lambda>n. 0) (\<lambda>n. True) [] = Inl ValueError \<and>
   pavPattern (- 2) 3 (\<lambda>n. 0) (\<lambda>n. True) [] = Inl ValueError \<and>
   pavPattern 2 (- 1) (\<lambda>n. 0) (\<lambda>n. True) [] \<noteq> Inl ValueError"
  using pavPattern_fails_iff [of 0 3 "\<lambda>n. 0" "\<lambda>n. True" "[]" ValueError]
    pavPattern_fails_iff [of "- 2" 3 "\<lambda>n. 0" "\<lambda>n. True" "[]" ValueError]
    pavPattern_fails_iff [of 2 "- 1" "\<lambda>n. 0" "\<lambda>n. True" "[]" ValueError]
  by simp

subsection \<open>A call that creates no surface\<close>

text \<open>
  Claim C3: when the host creates no surface for a panel, the run goes on and the panel is
  still part of the returned sequence. The run does go on, but the gap closer appends to
  \<^verbatim>\<open>srfs\<close> only under \<^verbatim>\<open>if srf:\<close> (lines 102, 118, 132), while the stacker appends
  whatever came back (line 68). Below, the host creates the two stacked surfaces and
  none afterwards: four panels are emitted, two are returned.
\<close>

theorem failed_render_dropped_by_gap_closer:
  "map_sum id (\<lambda>s. (map (\<lambda>p. (psite p, pcol p, py0 p, py1 p, psrf p)) (calls s), srfs s))
     (pavPattern 2 1 (\<lambda>n. if n = 4 then 5 else if n = 8 then 1 else if n = 9 then 2 else 0)
        (\<lambda>n. n < 2) [])
   = Inr ([(Stacked, 0, 0, 1 / 2, Some 0), (Stacked, 1, 0, 3, Some 1),
           (Fit, 0, 1 / 2, 3 / 2, None), (Fit, 0, 3 / 2, 3, None)],
          [Some 0, Some 1])"
  by (simp add: pavPattern_def init_state_def stack_rows_def stack_row_def py_range_def upt_rec
      stack_cell_def randint_def num_buckets_eq py_lookup_def bucket_heights_eq
      register_layer_def IsLayer_def AddLayer_def py_get_def layer_of_1 layer_of_2 layer_of_6
      close_gaps_def fill_column_def while_gap.simps valid_fits_of_def
      fit_step_def fallback_step_def residual_guard_def random_choice_def
      AddSrfPt_def ObjectLayer_def Let_def)

text \<open>
  What holds: whether the run returns does not depend on what the host creates; all
  \<^verbatim>\<open>xNum * yNum\<close> stacked panels are emitted and every column still reaches the common
  top; the returned list holds the result of every call of the stacker, absent handles
  included, and after them the handles of the gap closer's calls that created a surface.
\<close>

theorem failed_render_effect:
  assumes "pavPattern xNum yNum r ok layers = Inr s"
  shows "(\<exists>s'. pavPattern xNum yNum r ok' layers = Inr s') \<and>
     length (filter (\<lambda>p. psite p = Stacked) (calls s)) = nat yNum * nat xNum \<and>
     (\<forall>i<nat xNum. py_max (y_bases s) = Inr (col_top i (calls s))) \<and>
     srfs s = map psrf (filter (\<lambda>p. psite p = Stacked) (calls s)) @
        filter (\<lambda>x. x \<noteq> None) (map psrf (filter (\<lambda>p. psite p \<noteq> Stacked) (calls s)))"
proof -
  have pos: "0 < xNum"
  proof (rule ccontr)
    assume "\<not> 0 < xNum"
    then have "pavPattern xNum yNum r ok layers = Inl ValueError"
      by (intro pav_no_columns) simp
    with assms show False by simp
  qed
  have other: "\<exists>s'. pavPattern xNum yNum r ok' layers = Inr s'"
    using pos
  proof (rule pav_runE [of xNum yNum r ok' layers])
    fix s' assume "pavPattern xNum yNum r ok' layers = Inr s'"
    then show ?thesis ..
  qed
  from pos show ?thesis
  proof (rule pav_runE [of xNum yNum r ok layers])
    fix s1 s' mh new
    assume inv: "stack_inv (nat xNum) s1" and cnt: "length (calls s1) = nat yNum * nat xNum"
      and m: "py_max (y_bases s1) = Inr mh" and p: "pavPattern xNum yNum r ok layers = Inr s'"
      and c: "calls s' = calls s1 @ new"
      and fit: "\<forall>p\<in>set new. pcol p < nat xNum \<and> psite p = Fit"
      and t: "\<forall>i<nat xNum. col_top i (calls s') = mh" and y: "y_bases s' = y_bases s1"
      and sr: "srfs s' = srfs s1 @ filter (\<lambda>x. x \<noteq> None) (map psrf new)"
    from p assms have s: "s' = s" by simp
    from inv have st: "\<forall>p\<in>set (calls s1). psite p = Stacked"
      and sr1: "srfs s1 = map psrf (calls s1)"
      by (simp_all add: stack_inv_def)
    from st have f1: "filter (\<lambda>p. psite p = Stacked) (calls s1) = calls s1"
      and f2: "filter (\<lambda>p. psite p \<noteq> Stacked) (calls s1) = []"
      by (simp_all add: filter_id_conv filter_empty_conv)
    from fit have g1: "filter (\<lambda>p. psite p = Stacked) new = []"
      and g2: "filter (\<lambda>p. psite p \<noteq> Stacked) new = new"
      by (auto simp: filter_id_conv filter_empty_conv)
    from c f1 f2 g1 g2 have a: "filter (\<lambda>p. psite p = Stacked) (calls s') = calls s1"
      and b: "filter (\<lambda>p. psite p \<noteq> Stacked) (calls s') = new"
      by simp_all
    from other cnt m t y sr sr1 show ?thesis
      unfolding s [symmetric] a b by simp
  qed
qed

theorem failed_render_effect_witness:
  "map_sum id (\<lambda>s. (map psrf (calls s), srfs s, py_max (y_bases s), col_top 0 (calls s)))
     (pavPattern 2 1 (\<lambda>n. if n = 4 then 5 else if n = 8 then 1 else if n = 9 then 2 else 0)
        (\<lambda>n. n = 1 \<or> n = 2) [])
   = Inr ([None, Some 1, Some 2, None], [None, Some 1, Some 2], Inr 3, 3)"
proof -
  let ?r = "\<lambda>n::nat. if n = 4 then 5 else if n = 8 then 1 else if n = 9 then 2 else (0::nat)"
  let ?ok = "\<lambda>n::nat. n = 1 \<or> n = 2"
  have e: "map_sum id (\<lambda>s. (map (\<lambda>p. (psite p, psrf p)) (calls s), y_bases s))
      (pavPattern 2 1 ?r ?ok [])
    = Inr ([(Stacked, None), (Stacked, Some 1), (Fit, Some 2), (Fit, None)], [1 / 2, 3])"
    by (simp add: pavPattern_def init_state_def stack_rows_def stack_row_def py_range_def upt_rec
      stack_cell_def randint_def num_buckets_eq py_lookup_def bucket_heights_eq
      register_layer_def IsLayer_def AddLayer_def py_get_def layer_of_1 layer_of_2 layer_of_6
      close_gaps_def fill_column_def while_gap.simps valid_fits_of_def
      fit_step_def fallback_step_def residual_guard_def random_choice_def
      AddSrfPt_def ObjectLayer_def Let_def)
  then obtain s where p: "pavPattern 2 1 ?r ?ok [] = Inr s"
    by (cases "pavPattern 2 1 ?r ?ok []") simp_all
  with e have c: "map (\<lambda>p. (psite p, psrf p)) (calls s) =
      [(Stacked, None), (Stacked, Some 1), (Fit, Some 2), (Fit, None)]"
    and y: "y_bases s = [1 / 2, 3]"
    by simp_all
  from c obtain p0 p1 p2 p3 where cs: "calls s = [p0, p1, p2, p3]"
    and ps: "psite p0 = Stacked" "psrf p0 = None" "psite p1 = Stacked" "psrf p1 = Some 1"
      "psite p2 = Fit" "psrf p2 = Some 2" "psite p3 = Fit" "psrf p3 = None"
    by (auto simp: map_eq_Cons_conv)
  from failed_render_effect [OF p, of "\<lambda>n. True"] cs ps y
  have "srfs s = [None, Some 1, Some 2]" and "col_top 0 (calls s) = 3"
    by simp_all
  with p cs ps y show ?thesis by simp
qed

subsection \<open>The gap loop ends\<close>

text \<open>
  Claim C10: the gap loop of every column terminates, since each iteration either raises
  the running height by at least the smallest catalog height or takes the empty-fits
  branch and leaves the loop; the whole run is bounded by \<^verbatim>\<open>xNum * yNum\<close> stacking steps
  plus finitely many gap-closing iterations per column.

  The loop is the function \<open>while_gap\<close>, accepted with the measure
  \<open>ceiling (2 * (max_height - current_y))\<close>, so it returns for every start. Every iteration
  makes exactly one call, which counts the iterations: from any start there are at most
  \<open>ceiling (2 * gap)\<close> of them, and a run with at least one column returns after at most
  \<open>xNum * yNum\<close> stacking calls and \<open>6 * yNum\<close> gap-closing calls per column.
\<close>

theorem gap_loop_bounded:
  "(fit_step i gap current_y (valid_fits_of gap) s = Inr (y1, s1) \<longrightarrow>
      current_y + Min (snd ` set bucket_heights) \<le> y1) \<and>
   (1 / 1000 < max_height - current_y \<and> valid_fits_of (max_height - current_y) = [] \<longrightarrow>
      while_gap i max_height current_y s =
        (case fallback_step i (max_height - current_y) current_y s of
           Inl e \<Rightarrow> Inl e
         | Inr s' \<Rightarrow> Inr (current_y, max_height - current_y, s'))) \<and>
   (while_gap i max_height current_y s = Inr (cy', gap', s') \<longrightarrow>
      int (length (calls s')) \<le> int (length (calls s)) + max 0 \<lceil>2 * (max_height - current_y)\<rceil>) \<and>
   (0 < xNum \<longrightarrow>
      (\<exists>t. pavPattern xNum yNum r ok layers = Inr t \<and>
         length (calls t) \<le> nat xNum * nat yNum + nat xNum * (6 * nat yNum)))"
proof (intro conjI impI)
  assume "fit_step i gap current_y (valid_fits_of gap) s = Inr (y1, s1)"
  then have "current_y + 1 / 2 \<le> y1" by (rule fit_step_advance)
  then show "current_y + Min (snd ` set bucket_heights) \<le> y1"
    by (simp only: min_catalog_height)
next
  assume "1 / 1000 < max_height - current_y \<and> valid_fits_of (max_height - current_y) = []"
  then show "while_gap i max_height current_y s =
        (case fallback_step i (max_height - current_y) current_y s of
           Inl e \<Rightarrow> Inl e
         | Inr s' \<Rightarrow> Inr (current_y, max_height - current_y, s'))"
    by (subst while_gap.simps) (simp add: Let_def)
next
  assume "while_gap i max_height current_y s = Inr (cy', gap', s')"
  from while_gap_Inr [OF this] obtain new where "calls s' = calls s @ new"
    and "int (length new) \<le> max 0 \<lceil>2 * (max_height - current_y)\<rceil>"
    by blast
  then show "int (length (calls s')) \<le> int (length (calls s)) + max 0 \<lceil>2 * (max_height - current_y)\<rceil>"
    by simp
next
  assume "0 < xNum"
  then show "\<exists>t. pavPattern xNum yNum r ok layers = Inr t \<and>
         length (calls t) \<le> nat xNum * nat yNum + nat xNum * (6 * nat yNum)"
  proof (rule pav_runE [of xNum yNum r ok layers])
    fix s1 t new
    assume "length (calls s1) = nat yNum * nat xNum"
      and "pavPattern xNum yNum r ok layers = Inr t"
      and "calls t = calls s1 @ new" and "length new \<le> nat xNum * (6 * nat yNum)"
    then show ?thesis by (simp add: mult.commute)
  qed
qed

theorem gap_loop_bounded_witness:
  "map_sum id fst (fit_step 0 1 2 (valid_fits_of 1)
      \<lparr>srfs = [], y_bases = [2, 3], existing_layers = [''Height_Group_6''],
       rnd = (\<lambda>n. 0), rpos = 0, srf_ok = (\<lambda>n. True), doc_layers = [], calls = []\<rparr>) = Inr (5 / 2) \<and>
   2 + Min (snd ` set bucket_heights) \<le> (5 / 2 :: rat) \<and>
   (1 / 1000 :: rat) < 3 - 11 / 4 \<and> valid_fits_of (3 - 11 / 4) = [] \<and>
   map_sum id (\<lambda>(cy, gap, s'). (cy, gap, length (calls s'))) (while_gap 0 3 (11 / 4)
      \<lparr>srfs = [], y_bases = [11 / 4, 3], existing_layers = [''Height_Group_6''],
       rnd = (\<lambda>n. 0), rpos = 0, srf_ok = (\<lambda>n. True), doc_layers = [], calls = []\<rparr>)
     = Inr (11 / 4, 1 / 4, 1) \<and>
   (0::int) < 2 \<and>
   map_sum id (\<lambda>t. length (calls t) \<le> 14) (pavPattern 2 1 (\<lambda>n. 0) (\<lambda>n. True) []) = Inr True"
proof -
  let ?a = "\<lparr>srfs = [], y_bases = [2, 3], existing_layers = [''Height_Group_6''],
       rnd = (\<lambda>n. 0), rpos = 0, srf_ok = (\<lambda>n. True), doc_layers = [], calls = []\<rparr>"
  let ?b = "\<lparr>srfs = [], y_bases = [11 / 4, 3], existing_layers = [''Height_Group_6''],
       rnd = (\<lambda>n. 0), rpos = 0, srf_ok = (\<lambda>n. True), doc_layers = [], calls = []\<rparr>"
  have "\<exists>s1. fit_step 0 1 2 (valid_fits_of 1) ?a = Inr (5 / 2, s1)"
    by (simp add: fit_step_def valid_fits_of_def bucket_heights_eq random_choice_def
        AddSrfPt_def ObjectLayer_def Let_def)
  then obtain s1 where f: "fit_step 0 1 2 (valid_fits_of 1) ?a = Inr (5 / 2, s1)" ..
  have g: "(1 / 1000 :: rat) < 3 - 11 / 4 \<and> valid_fits_of (3 - 11 / 4) = []"
    by (simp add: valid_fits_of_def bucket_heights_eq)
  have pos: "(0::int) < 2" by simp
  note T1 = gap_loop_bounded [where i = 0 and gap = 1 and current_y = 2 and s = ?a
      and ?y1.0 = "5 / 2" and ?s1.0 = s1]
  note T2 = gap_loop_bounded [where i = 0 and current_y = "11 / 4" and s = ?b
      and max_height = 3 and xNum = 2 and yNum = 1 and r = "\<lambda>n. 0" and ok = "\<lambda>n. True"
      and layers = "[]"]
  from T1 f have a: "2 + Min (snd ` set bucket_heights) \<le> (5 / 2 :: rat)"
    by blast
  from T2 g have "while_gap 0 3 (11 / 4) ?b =
        (case fallback_step 0 (3 - 11 / 4) (11 / 4) ?b of
           Inl e \<Rightarrow> Inl e
         | Inr s' \<Rightarrow> Inr (11 / 4, 3 - 11 / 4, s'))"
    by blast
  then have b: "map_sum id (\<lambda>(cy, gap, s'). (cy, gap, length (calls s'))) (while_gap 0 3 (11 / 4) ?b)
     = Inr (11 / 4, 1 / 4, 1)"
    by (simp add: fallback_step_def random_choice_def AddSrfPt_def ObjectLayer_def Let_def)
  from b obtain s' where w: "while_gap 0 3 (11 / 4) ?b = Inr (11 / 4, 1 / 4, s')"
    and l: "length (calls s') = 1"
    by (cases "while_gap 0 3 (11 / 4) ?b") auto
  from gap_loop_bounded [where i = 0 and current_y = "11 / 4" and s = ?b and max_height = 3
      and cy' = "11 / 4" and gap' = "1 / 4" and s' = s'] w
  have d: "int (length (calls s')) \<le> int (length (calls ?b)) + max 0 \<lceil>2 * ((3::rat) - 11 / 4)\<rceil>"
    by blast
  from T2 pos obtain t where "pavPattern 2 1 (\<lambda>n. 0) (\<lambda>n. True) [] = Inr t"
    and "length (calls t) \<le> nat 2 * nat 1 + nat 2 * (6 * nat 1)"
    by blast
  then have c: "map_sum id (\<lambda>t. length (calls t) \<le> 14) (pavPattern 2 1 (\<lambda>n. 0) (\<lambda>n. True) []) = Inr True"
    by simp
  from f a g b d l pos c show ?thesis by simp
qed

subsection \<open>The stacker\<close>

text \<open>
  Claim C7: the stacker iterates the rows in an outer loop and the columns in an inner
  loop; for each pair it draws a bucket index from 1 to the number of buckets, looks up
  its height \<open>r\<close>, emits a panel from the running height of the column to that height
  plus \<open>r\<close>, advances the running height by \<open>r\<close>, and registers the layer of the bucket
  if the registry does not have it; so the stacked panels of a column are contiguous
  from 0.

  In the theorem: the two loops are one pass over \<open>visits\<close>, which has
  \<open>yNum * xNum\<close> pairs, the pair number \<open>m\<close> being row \<open>m div xNum\<close> and column
  \<open>m mod xNum\<close>; the stacker always returns; in a run that returns \<open>t\<close>, step \<open>m\<close>
  takes the state \<open>s\<close> that the steps before it have produced to a state \<open>s'\<close>, from
  which the steps after it produce \<open>t\<close>, and \<open>s'\<close> differs from \<open>s\<close> as the claim says:
  one raw draw gives the bucket index, the call of \<^verbatim>\<open>rs.AddSrfPt\<close> for the panel is
  recorded with its layer when a surface is created, its result is appended to
  \<^verbatim>\<open>srfs\<close>, the running height of the column is the upper edge of the panel, and the
  layer is appended to the registry unless it is there; at the end the panels of each
  column are contiguous from 0, the running height of a column is the upper edge of its
  last panel, and the registry has no layer twice. That the draw is uniform is a property
  of the random source, which the model takes as given.
\<close>

theorem stacker_step:
  "stack_rows xNum yNum s0 = for_each (\<lambda>(n, i). stack_cell i) (visits xNum yNum) s0 \<and>
   length (visits xNum yNum) = nat yNum * nat xNum \<and>
   (\<exists>t. stack_rows xNum yNum (init_state xNum rn ok layers) = Inr t) \<and>
   (stack_rows xNum yNum (init_state xNum rn ok layers) = Inr t \<and>
    m < length (visits xNum yNum) \<longrightarrow>
      (\<exists>s s' bucket_index r.
         visits xNum yNum ! m = (m div nat xNum, m mod nat xNum) \<and>
         for_each (\<lambda>(n, i). stack_cell i) (take m (visits xNum yNum))
           (init_state xNum rn ok layers) = Inr s \<and>
         stack_cell (m mod nat xNum) s = Inr s' \<and>
         for_each (\<lambda>(n, i). stack_cell i) (drop (Suc m) (visits xNum yNum)) s' = Inr t \<and>
         randint 1 num_buckets s = Inr (bucket_index, s\<lparr>rpos := Suc (rpos s)\<rparr>) \<and>
         1 \<le> bucket_index \<and> bucket_index \<le> num_buckets \<and>
         py_lookup bucket_heights bucket_index = Inr r \<and>
         calls s' = calls s @
           [\<lparr>pcol = m mod nat xNum, py0 = y_bases s ! (m mod nat xNum),
             py1 = y_bases s ! (m mod nat xNum) + r,
             psrf = (if srf_ok s (length (calls s)) then Some (length (calls s)) else None),
             player = (if srf_ok s (length (calls s)) then Some (layer_of bucket_index) else None),
             psite = Stacked\<rparr>] \<and>
         srfs s' = srfs s @ [if srf_ok s (length (calls s)) then Some (length (calls s)) else None] \<and>
         y_bases s' = (y_bases s)[m mod nat xNum := y_bases s ! (m mod nat xNum) + r] \<and>
         existing_layers s' = (if layer_of bucket_index \<in> set (existing_layers s)
             then existing_layers s else existing_layers s @ [layer_of bucket_index]))) \<and>
   (stack_rows xNum yNum (init_state xNum rn ok layers) = Inr t \<and> j < nat xNum \<longrightarrow>
      contiguous_from 0 (filter (\<lambda>p. pcol p = j) (calls t)) \<and>
      y_bases t ! j = col_top j (calls t) \<and>
      distinct (existing_layers t))"
  (is "?A \<and> ?B \<and> ?C \<and> (?H1 \<longrightarrow> ?D) \<and> (?H2 \<longrightarrow> ?E)")
proof -
  let ?init = "init_state xNum rn ok layers"
  have order: "stack_rows xNum yNum s0 = for_each (\<lambda>(n, i). stack_cell i) (visits xNum yNum) s0"
    by (rule stack_rows_visits)
  have len: "length (visits xNum yNum) = nat yNum * nat xNum"
    by (rule visits_length)
  have total: "\<exists>t. stack_rows xNum yNum ?init = Inr t"
    using stack_rows_inv [OF stack_inv_init, of xNum yNum rn ok layers] by blast
  have step: "\<exists>s s' bucket_index r.
         visits xNum yNum ! m = (m div nat xNum, m mod nat xNum) \<and>
         for_each (\<lambda>(n, i). stack_cell i) (take m (visits xNum yNum)) ?init = Inr s \<and>
         stack_cell (m mod nat xNum) s = Inr s' \<and>
         for_each (\<lambda>(n, i). stack_cell i) (drop (Suc m) (visits xNum yNum)) s' = Inr t \<and>
         randint 1 num_buckets s = Inr (bucket_index, s\<lparr>rpos := Suc (rpos s)\<rparr>) \<and>
         1 \<le> bucket_index \<and> bucket_index \<le> num_buckets \<and>
         py_lookup bucket_heights bucket_index = Inr r \<and>
         calls s' = calls s @
           [\<lparr>pcol = m mod nat xNum, py0 = y_bases s ! (m mod nat xNum),
             py1 = y_bases s ! (m mod nat xNum) + r,
             psrf = (if srf_ok s (length (calls s)) then Some (length (calls s)) else None),
             player = (if srf_ok s (length (calls s)) then Some (layer_of bucket_index) else None),
             psite = Stacked\<rparr>] \<and>
         srfs s' = srfs s @ [if srf_ok s (length (calls s)) then Some (length (calls s)) else None] \<and>
         y_bases s' = (y_bases s)[m mod nat xNum := y_bases s ! (m mod nat xNum) + r] \<and>
         existing_layers s' = (if layer_of bucket_index \<in> set (existing_layers s)
             then existing_layers s else existing_layers s @ [layer_of bucket_index])"
    if run: "stack_rows xNum yNum ?init = Inr t" and m: "m < length (visits xNum yNum)"
  proof -
    from stack_rows_split [OF run m] obtain s s' where
      a: "for_each (\<lambda>(n, i). stack_cell i) (take m (visits xNum yNum)) ?init = Inr s"
      and c: "stack_cell (m mod nat xNum) s = Inr s'"
      and d: "for_each (\<lambda>(n, i). stack_cell i) (drop (Suc m) (visits xNum yNum)) s' = Inr t"
      by blast
    from stack_visits_registry [OF a] have sub: "set (existing_layers s) \<subseteq> fst ` set (doc_layers s)" ..
    from stack_cell_step [OF c sub] obtain k r where
      f: "randint 1 num_buckets s = Inr (k, s\<lparr>rpos := Suc (rpos s)\<rparr>)"
        "1 \<le> k" "k \<le> num_buckets" "py_lookup bucket_heights k = Inr r"
        "calls s' = calls s @
           [\<lparr>pcol = m mod nat xNum, py0 = y_bases s ! (m mod nat xNum),
             py1 = y_bases s ! (m mod nat xNum) + r,
             psrf = (if srf_ok s (length (calls s)) then Some (length (calls s)) else None),
             player = (if srf_ok s (length (calls s)) then Some (layer_of k) else None),
             psite = Stacked\<rparr>]"
        "srfs s' = srfs s @ [if srf_ok s (length (calls s)) then Some (length (calls s)) else None]"
        "y_bases s' = (y_bases s)[m mod nat xNum := y_bases s ! (m mod nat xNum) + r]"
        "existing_layers s' = (if layer_of k \<in> set (existing_layers s)
             then existing_layers s else existing_layers s @ [layer_of k])"
      by blast
    show ?thesis
      by (rule exI [of _ s], rule exI [of _ s'], rule exI [of _ k], rule exI [of _ r])
        (intro conjI visits_nth [OF m] a c d f)
  qed
  have final: "contiguous_from 0 (filter (\<lambda>p. pcol p = j) (calls t)) \<and>
      y_bases t ! j = col_top j (calls t) \<and> distinct (existing_layers t)"
    if run: "stack_rows xNum yNum ?init = Inr t" and j: "j < nat xNum"
  proof -
    from stack_rows_contiguous [OF run] have inv: "stack_inv (nat xNum) t"
      and co: "contiguous_from 0 (filter (\<lambda>p. pcol p = j) (calls t))" by simp_all
    from inv j have top: "y_bases t ! j = col_top j (calls t)"
      by (simp add: stack_inv_def)
    from stack_rows_registry [OF run] have "distinct (existing_layers t)" ..
    with co top show ?thesis by simp
  qed
  have step': "?H1 \<longrightarrow> ?D"
  proof
    assume "?H1"
    then have "stack_rows xNum yNum ?init = Inr t" and "m < length (visits xNum yNum)"
      by simp_all
    then show "?D" by (rule step)
  qed
  have final': "?H2 \<longrightarrow> ?E"
  proof
    assume "?H2"
    then have "stack_rows xNum yNum ?init = Inr t" and "j < nat xNum"
      by simp_all
    then show "?E" by (rule final)
  qed
  from order len total step' final' show ?thesis
    by (intro conjI)
qed

theorem stacker_step_witness:
  "map_sum id (\<lambda>t. (map (\<lambda>p. (pcol p, py0 p, py1 p, psrf p, player p)) (calls t), srfs t,
        y_bases t, existing_layers t))
     (stack_rows 2 1 (init_state 2 (\<lambda>n. if n = 4 then 5 else 0) (\<lambda>n. True) []))
   = Inr ([(0, 0, 1 / 2, Some 0, Some ''Height_Group_1''), (1, 0, 3, Some 1, Some ''Height_Group_6'')],
          [Some 0, Some 1], [1 / 2, 3], [''Height_Group_1'', ''Height_Group_6'']) \<and>
   visits 2 1 = [(0, 0), (0, 1)] \<and>
   (\<exists>t s s'. stack_rows 2 1 (init_state 2 (\<lambda>n. if n = 4 then 5 else 0) (\<lambda>n. True) []) = Inr t \<and>
      stack_cell 0 (init_state 2 (\<lambda>n. if n = 4 then 5 else 0) (\<lambda>n. True) []) = Inr s \<and>
      stack_cell 1 s = Inr s' \<and> s' = t \<and>
      randint 1 num_buckets s = Inr (6, s\<lparr>rpos := Suc (rpos s)\<rparr>) \<and>
      py_lookup bucket_heights 6 = Inr 3 \<and>
      calls t = calls s @ [\<lparr>pcol = 1, py0 = 0, py1 = 3, psrf = Some 1,
           player = Some ''Height_Group_6'', psite = Stacked\<rparr>] \<and>
      existing_layers s = [''Height_Group_1''] \<and>
      existing_layers t = [''Height_Group_1'', ''Height_Group_6''] \<and>
      contiguous_from 0 (filter (\<lambda>p. pcol p = 1) (calls t)) \<and>
      y_bases t ! 1 = col_top 1 (calls t) \<and> distinct (existing_layers t))"
proof -
  let ?r = "\<lambda>n::nat. if n = 4 then 5 else (0::nat)"
  let ?init = "init_state 2 ?r (\<lambda>n. True) []"
  note st = stacker_step [of 2 1 _ ?r "\<lambda>n. True" "[]" _ 1 1]
  have e: "map_sum id (\<lambda>t. (map (\<lambda>p. (pcol p, py0 p, py1 p, psrf p, player p)) (calls t), srfs t,
        y_bases t, existing_layers t)) (stack_rows 2 1 ?init)
     = Inr ([(0, 0, 1 / 2, Some 0, Some ''Height_Group_1''), (1, 0, 3, Some 1, Some ''Height_Group_6'')],
          [Some 0, Some 1], [1 / 2, 3], [''Height_Group_1'', ''Height_Group_6''])"
    by (simp add: init_state_def stack_rows_def stack_row_def py_range_def upt_rec
      stack_cell_def randint_def num_buckets_eq py_lookup_def bucket_heights_eq
      layer_of_1 layer_of_6 register_layer_def IsLayer_def AddLayer_def py_get_def
      AddSrfPt_def ObjectLayer_def Let_def)
  have v: "visits 2 1 = [(0, 0), (0, 1)]"
    by (simp add: visits_def py_range_def upt_rec)
  from st obtain t where run: "stack_rows 2 1 ?init = Inr t" by blast
  have m: "(1::nat) < length (visits 2 1)" by (simp add: v)
  from st run m obtain s s' k r where
    a: "for_each (\<lambda>(n, i). stack_cell i) (take 1 (visits 2 1)) ?init = Inr s"
    and c: "stack_cell (1 mod nat 2) s = Inr s'"
    and d: "for_each (\<lambda>(n, i). stack_cell i) (drop (Suc 1) (visits 2 1)) s' = Inr t"
    and rd: "randint 1 num_buckets s = Inr (k, s\<lparr>rpos := Suc (rpos s)\<rparr>)"
    and lk: "py_lookup bucket_heights k = Inr r"
    and cs: "calls s' = calls s @
           [\<lparr>pcol = 1 mod nat 2, py0 = y_bases s ! (1 mod nat 2),
             py1 = y_bases s ! (1 mod nat 2) + r,
             psrf = (if srf_ok s (length (calls s)) then Some (length (calls s)) else None),
             player = (if srf_ok s (length (calls s)) then Some (layer_of k) else None),
             psite = Stacked\<rparr>]"
    and el: "existing_layers s' = (if layer_of k \<in> set (existing_layers s)
             then existing_layers s else existing_layers s @ [layer_of k])"
    by blast
  from a have s: "stack_cell 0 ?init = Inr s"
    by (simp add: v split: sum.splits)
  from d have t: "s' = t" by (simp add: v)
  from c have c': "stack_cell 1 s = Inr s'" by simp
  have s0: "map_sum id (\<lambda>s. (y_bases s, calls s, srf_ok s 1, existing_layers s, rnd s (rpos s)))
      (stack_cell 0 ?init)
      = Inr ([1 / 2, 0], [\<lparr>pcol = 0, py0 = 0, py1 = 1 / 2, psrf = Some 0,
           player = Some ''Height_Group_1'', psite = Stacked\<rparr>], True, [''Height_Group_1''], 5)"
    by (simp add: init_state_def py_range_def upt_rec
      stack_cell_def randint_def num_buckets_eq py_lookup_def bucket_heights_eq
      layer_of_1 register_layer_def IsLayer_def AddLayer_def py_get_def
      AddSrfPt_def ObjectLayer_def Let_def)
  with s have sv: "y_bases s = [1 / 2, 0]" "length (calls s) = Suc 0" "srf_ok s (Suc 0)"
    "existing_layers s = [''Height_Group_1'']" "rnd s (rpos s) = 5"
    by simp_all
  from sv(5) have "randint 1 num_buckets s = Inr (6, s\<lparr>rpos := Suc (rpos s)\<rparr>)"
    by (simp add: randint_def num_buckets_eq)
  with rd have k: "k = 6" by simp
  have "py_lookup bucket_heights 6 = Inr 3"
    by (simp add: py_lookup_def bucket_heights_eq)
  with lk k have r: "r = 3" by simp
  from cs have cs': "calls t = calls s @ [\<lparr>pcol = 1, py0 = 0, py1 = 3, psrf = Some 1,
           player = Some ''Height_Group_6'', psite = Stacked\<rparr>]"
    unfolding k r t by (simp add: sv layer_of_6)
  from el have el': "existing_layers t = [''Height_Group_1'', ''Height_Group_6'']"
    unfolding k t by (simp add: sv layer_of_6)
  from st run have fin: "contiguous_from 0 (filter (\<lambda>p. pcol p = 1) (calls t))"
    "y_bases t ! 1 = col_top 1 (calls t)" "distinct (existing_layers t)"
    by simp_all
  have "\<exists>t s s'. stack_rows 2 1 ?init = Inr t \<and>
      stack_cell 0 ?init = Inr s \<and>
      stack_cell 1 s = Inr s' \<and> s' = t \<and>
      randint 1 num_buckets s = Inr (6, s\<lparr>rpos := Suc (rpos s)\<rparr>) \<and>
      py_lookup bucket_heights 6 = Inr 3 \<and>
      calls t = calls s @ [\<lparr>pcol = 1, py0 = 0, py1 = 3, psrf = Some 1,
           player = Some ''Height_Group_6'', psite = Stacked\<rparr>] \<and>
      existing_layers s = [''Height_Group_1''] \<and>
      existing_layers t = [''Height_Group_1'', ''Height_Group_6''] \<and>
      contiguous_from 0 (filter (\<lambda>p. pcol p = 1) (calls t)) \<and>
      y_bases t ! 1 = col_top 1 (calls t) \<and> distinct (existing_layers t)"
    by (rule exI [of _ t], rule exI [of _ s], rule exI [of _ s'])
      (intro conjI run s c' t \<open>randint 1 num_buckets s = Inr (6, s\<lparr>rpos := Suc (rpos s)\<rparr>)\<close>
        \<open>py_lookup bucket_heights 6 = Inr 3\<close> cs' sv(4) el' fin)
  with e v show ?thesis by (intro conjI)
qed

end
